(* ===== verification/Prelude.thy ===== *)
theory Prelude
  imports Main "HOL-Library.Word" "HOL-Library.Sublist"
begin

text \<open>
  The shared vocabulary of the development. A Python \<open>str\<close> is a sequence of Unicode
  code points, so it is modelled as \<open>pystr = nat list\<close>; the abbreviation \<open>py\<close> turns
  an ASCII literal such as \<open>py ''<SUBJECT>''\<close> into its code points. Bytes (the payload
  of a Pub/Sub message and of a secret) are \<open>8 word\<close> values. Every exception the
  program can raise or catch is a constructor of \<open>exc\<close>, and a computation that may
  raise returns \<open>exc + 'a\<close> (\<open>Inl\<close> the exception), sequenced with \<open>res_bind\<close>.
\<close>

type_synonym pystr = "nat list"
type_synonym byte = "8 word"

abbreviation py :: "string \<Rightarrow> pystr" where
  "py s \<equiv> map of_char s"

text \<open>
  The exception classes that the program's code paths can raise. \<open>ValueError\<close>
  carries its message because the program constructs one itself (the non-200 reply
  of the chat API); the others are raised by builtins and libraries, whose messages
  the model does not reproduce.
\<close>

datatype exc =
    AttributeError
  | TypeError
  | KeyError
  | IndexError
  | ValueError pystr
  | UnicodeDecodeError
  | BinasciiError
  | JSONDecodeError
  | OSError
  | RequestException
  | GoogleAPIError

type_synonym 'a res = "exc + 'a"

definition res_bind :: "'a res \<Rightarrow> ('a \<Rightarrow> 'b res) \<Rightarrow> 'b res" where
  "res_bind m f = (case m of Inl e \<Rightarrow> Inl e | Inr x \<Rightarrow> f x)"

named_theorems py_simps "evaluation rules of the modelled Python builtins"

lemma res_bind_Inl [simp]: "res_bind (Inl e) f = Inl e"
  by (simp add: res_bind_def)

lemma res_bind_Inr [simp]: "res_bind (Inr x) f = f x"
  by (simp add: res_bind_def)

lemma res_bind_eq_Inr:
  "res_bind m f = Inr y \<longleftrightarrow> (\<exists>x. m = Inr x \<and> f x = Inr y)"
  by (cases m) (simp_all add: res_bind_def)

lemma res_bind_eq_Inl:
  "res_bind m f = Inl e \<longleftrightarrow> m = Inl e \<or> (\<exists>x. m = Inr x \<and> f x = Inl e)"
  by (cases m) (simp_all add: res_bind_def)

subsection \<open>Shared facts on lists and substrings\<close>

text \<open>
  Python's substring test \<open>a in b\<close> is \<open>sublist a b\<close> of HOL-Library.Sublist.
  The facts below are used by several components.
\<close>

lemma sublist_append_middle [intro]: "sublist ys (xs @ ys @ zs)"
  by (simp add: sublist_def) blast

lemma sublist_trans_append [intro]:
  "sublist xs ys \<Longrightarrow> sublist xs (as @ ys @ bs)"
  by (meson sublist_append_middle sublist_order.dual_order.trans)

lemma sublist_set_subset: "sublist xs ys \<Longrightarrow> set xs \<subseteq> set ys"
  by (auto simp: sublist_def)

lemma not_sublist_if_notin:
  "x \<in> set xs \<Longrightarrow> x \<notin> set ys \<Longrightarrow> \<not> sublist xs ys"
  using sublist_set_subset by blast

lemma take_eq_Cons_prefix:
  "take (length p) s = p \<longleftrightarrow> prefix p s"
  by (metis append_take_drop_id prefix_def take_all_iff take_is_prefix append_eq_conv_conj)

end
