(* ===== verification/PyStr.thy ===== *)
theory PyStr
  imports Prelude
begin

text \<open>
  The Python \<open>str\<close> methods the program calls, with CPython's semantics:
  \<open>str.replace\<close> (a single left-to-right pass that replaces non-overlapping
  occurrences), \<open>str.split\<close> with an explicit separator, \<open>str(int)\<close>, and list
  indexing with negative indices. The lemmas say when a substring survives a
  replacement, which is what the placeholder substitution of the message template
  relies on, and how \<open>split\<close> takes a path apart.
\<close>

subsection \<open>str.replace\<close>

text \<open>
  \<open>s.replace(old, new)\<close>: for a non-empty \<open>old\<close> the string is scanned from the left;
  at each position where \<open>old\<close> starts it is replaced and the scan resumes after it.
  An empty \<open>old\<close> inserts \<open>new\<close> before every character and at the end.
\<close>

fun str_replace :: "pystr \<Rightarrow> pystr \<Rightarrow> pystr \<Rightarrow> pystr" where
  "str_replace [] new s = new @ concat (map (\<lambda>c. c # new) s)"
| "str_replace (p # ps) new [] = []"
| "str_replace (p # ps) new (c # cs) =
     (if p = c \<and> prefix ps cs
      then new @ str_replace (p # ps) new (drop (length ps) cs)
      else c # str_replace (p # ps) new cs)"

subsection \<open>str.split\<close>

text \<open>
  \<open>s.split(sep)\<close> with a non-empty separator: the pieces between the occurrences of
  \<open>sep\<close>, found left to right; an empty separator raises \<open>ValueError\<close>.
  \<open>str_split_aux sep cur s\<close> scans \<open>s\<close> with \<open>cur\<close> the piece read so far.
\<close>

fun str_split_aux :: "pystr \<Rightarrow> pystr \<Rightarrow> pystr \<Rightarrow> pystr list" where
  "str_split_aux [] cur s = [cur @ s]"
| "str_split_aux (p # ps) cur [] = [cur]"
| "str_split_aux (p # ps) cur (c # cs) =
     (if p = c \<and> prefix ps cs
      then cur # str_split_aux (p # ps) [] (drop (length ps) cs)
      else str_split_aux (p # ps) (cur @ [c]) cs)"

definition str_split :: "pystr \<Rightarrow> pystr \<Rightarrow> pystr list res" where
  "str_split sep s =
     (if sep = [] then Inl (ValueError (py ''empty separator''))
      else Inr (str_split_aux sep [] s))"

subsection \<open>Indexing a list\<close>

text \<open>\<open>xs[i]\<close>: a negative index counts from the end; out of range is \<open>IndexError\<close>.\<close>

definition py_index :: "'a list \<Rightarrow> int \<Rightarrow> 'a res" where
  "py_index xs i =
     (if i < - int (length xs) \<or> int (length xs) \<le> i then Inl IndexError
      else if i < 0 then Inr (xs ! nat (int (length xs) + i))
      else Inr (xs ! nat i))"

subsection \<open>Decimal and hexadecimal digits\<close>

text \<open>\<open>str(n)\<close> for an \<open>int\<close>: its decimal digits, with a minus sign when negative.\<close>

fun nat_digits :: "nat \<Rightarrow> pystr" where
  "nat_digits n = (if n < 10 then [48 + n] else nat_digits (n div 10) @ [48 + n mod 10])"

declare nat_digits.simps [simp del]

definition py_int_str :: "int \<Rightarrow> pystr" where
  "py_int_str i = (if i < 0 then 45 # nat_digits (nat (- i)) else nat_digits (nat i))"

text \<open>
  The lower-case hexadecimal digit of \<open>d < 16\<close>, and the last \<open>k\<close> hexadecimal
  digits of \<open>n\<close>, zero-padded (the format \<open>'{:0kx}'\<close>).
\<close>

definition hex_digit :: "nat \<Rightarrow> nat" where
  "hex_digit d = (if d < 10 then 48 + d else 87 + d)"

fun hex_pad :: "nat \<Rightarrow> nat \<Rightarrow> pystr" where
  "hex_pad 0 n = []"
| "hex_pad (Suc k) n = hex_pad k (n div 16) @ [hex_digit (n mod 16)]"

subsection \<open>Placeholders\<close>

text \<open>
  A placeholder of the message template is a token \<open><NAME>\<close>: it starts with
  \<open><\<close> (60), ends with \<open>>\<close> (62) and has neither bracket inside.
\<close>

definition is_placeholder :: "pystr \<Rightarrow> bool" where
  "is_placeholder t \<longleftrightarrow>
     2 \<le> length t \<and> hd t = 60 \<and> last t = 62 \<and>
     60 \<notin> set (butlast (tl t)) \<and> 62 \<notin> set (butlast (tl t))"

subsection \<open>Facts about str.replace\<close>

lemma str_replace_no_match [py_simps]:
  "\<not> prefix (p # ps) (c # cs) \<Longrightarrow>
   str_replace (p # ps) new (c # cs) = c # str_replace (p # ps) new cs"
  by auto

lemma str_replace_match [py_simps]:
  "prefix (p # ps) s \<Longrightarrow>
   str_replace (p # ps) new s = new @ str_replace (p # ps) new (drop (Suc (length ps)) s)"
  by (cases s) auto

text \<open>Replacing cannot invent characters: everything comes from the string or from \<open>new\<close>.\<close>

lemma set_str_replace:
  "old \<noteq> [] \<Longrightarrow> set (str_replace old new s) \<subseteq> set s \<union> set new"
  by (induction old new s rule: str_replace.induct) (auto dest: in_set_dropD)

text \<open>A string in which \<open>old\<close> does not occur is returned unchanged.\<close>

lemma str_replace_absent:
  "\<not> sublist (p # ps) s \<Longrightarrow> str_replace (p # ps) new s = s"
  by (induction s) (auto simp: sublist_Cons_right)

text \<open>If \<open>old\<close> occurs, then \<open>new\<close> occurs in the result.\<close>

lemma str_replace_inserts:
  "sublist (p # ps) s \<Longrightarrow> sublist new (str_replace (p # ps) new s)"
proof (induction s)
  case (Cons c cs)
  then show ?case
    by (cases "p = c \<and> prefix ps cs") (auto simp: sublist_Cons_right)
qed simp

text \<open>
  A string that starts with characters none of which starts \<open>old\<close> keeps them:
  no occurrence of \<open>old\<close> can begin inside it.
\<close>

lemma str_replace_append_free:
  "p \<notin> set u \<Longrightarrow> str_replace (p # ps) new (u @ t) = u @ str_replace (p # ps) new t"
  by (induction u) (auto simp: str_replace_no_match)

text \<open>
  A character that occurs nowhere after the first position of \<open>old\<close> cuts the string:
  no occurrence of \<open>old\<close> can stretch across it.
\<close>

lemma str_replace_cut:
  assumes c: "c \<notin> set ps"
  shows "str_replace (p # ps) new (a @ c # r) =
           str_replace (p # ps) new a @ str_replace (p # ps) new (c # r)"
proof (induction "length a" arbitrary: a rule: less_induct)
  case less
  show ?case
  proof (cases a)
    case Nil
    then show ?thesis by simp
  next
    case (Cons x xs)
    show ?thesis
    proof (cases "p = x \<and> prefix ps (xs @ c # r)")
      case True
      then obtain zs where zs: "xs @ c # r = ps @ zs" by (auto simp: prefix_def)
      have long: "length ps \<le> length xs"
      proof (rule ccontr)
        assume a1: "\<not> ?thesis"
        then have "(ps @ zs) ! length xs = ps ! length xs" by (simp add: nth_append)
        moreover have "(xs @ c # r) ! length xs = c" by simp
        ultimately have "c = ps ! length xs" using zs by simp
        moreover have "ps ! length xs \<in> set ps" using a1 by simp
        ultimately show False using c by simp
      qed
      have pre: "prefix ps xs"
        using True long prefix_length_prefix [of ps "xs @ c # r" xs] by simp
      have drop: "drop (length ps) (xs @ c # r) = drop (length ps) xs @ c # r"
        using long by simp
      have "length (drop (length ps) xs) < length a" using Cons by simp
      then have "str_replace (p # ps) new (drop (length ps) xs @ c # r) =
          str_replace (p # ps) new (drop (length ps) xs) @ str_replace (p # ps) new (c # r)"
        by (rule less.hyps)
      have e1: "str_replace (p # ps) new (x # (xs @ c # r)) =
          new @ str_replace (p # ps) new (drop (length ps) (xs @ c # r))"
        using True by (simp only: str_replace.simps(3) simp_thms if_True)
      have e2: "str_replace (p # ps) new (x # xs) =
          new @ str_replace (p # ps) new (drop (length ps) xs)"
        using True pre by simp
      from e1 e2 drop Cons \<open>str_replace (p # ps) new (drop (length ps) xs @ c # r) = _\<close>
      show ?thesis by (simp del: str_replace.simps)
    next
      case False
      then have "\<not> (p = x \<and> prefix ps xs)"
        by (auto dest: prefix_prefix)
      then have e2: "str_replace (p # ps) new (x # xs) = x # str_replace (p # ps) new xs"
        by (simp only: str_replace.simps(3) if_False)
      have e1: "str_replace (p # ps) new (x # (xs @ c # r)) =
          x # str_replace (p # ps) new (xs @ c # r)"
        using False by (simp only: str_replace.simps(3) if_False)
      have "length xs < length a" using Cons by simp
      then have "str_replace (p # ps) new (xs @ c # r) =
          str_replace (p # ps) new xs @ str_replace (p # ps) new (c # r)"
        by (rule less.hyps)
      with e1 e2 Cons show ?thesis by (simp del: str_replace.simps)
    qed
  qed
qed
text \<open>
  Hence a substring survives the replacement when its first character does not occur
  after the first position of \<open>old\<close>, the first character of \<open>old\<close> does not occur
  in the rest of it, and neither of the two is a prefix of the other.
\<close>

lemma str_replace_keeps_sublist:
  assumes c: "c \<notin> set ps" and p: "p \<notin> set v"
    and n1: "\<not> prefix (p # ps) (c # v)" and n2: "\<not> prefix (c # v) (p # ps)"
    and sub: "sublist (c # v) s"
  shows "sublist (c # v) (str_replace (p # ps) new s)"
proof -
  from sub obtain a b where s: "s = a @ c # v @ b"
    by (auto simp: sublist_def)
  have np: "\<not> prefix (p # ps) (c # v @ b)"
  proof
    assume "prefix (p # ps) (c # v @ b)"
    moreover have "prefix (c # v) (c # v @ b)" by simp
    ultimately have "prefix (p # ps) (c # v) \<or> prefix (c # v) (p # ps)"
      by (rule prefix_same_cases)
    with n1 n2 show False by blast
  qed
  have "str_replace (p # ps) new s =
          str_replace (p # ps) new a @ str_replace (p # ps) new (c # v @ b)"
    using c s by (simp del: str_replace.simps add: str_replace_cut)
  also have "str_replace (p # ps) new (c # v @ b) = c # v @ str_replace (p # ps) new b"
    by (simp only: str_replace_no_match [OF np] str_replace_append_free [OF p])
  finally show ?thesis
    using sublist_append_middle [of "c # v" "str_replace (p # ps) new a"] by simp
qed

lemma is_placeholder_iff:
  "is_placeholder t \<longleftrightarrow> (\<exists>m. t = 60 # m @ [62] \<and> 60 \<notin> set m \<and> 62 \<notin> set m)"
proof
  assume t: "is_placeholder t"
  then have len: "2 \<le> length t" by (simp add: is_placeholder_def)
  then obtain a rest where ar: "t = a # rest" by (cases t) auto
  with len have rne: "rest \<noteq> []" by auto
  then have "rest = butlast rest @ [last rest]" by simp
  with t ar rne have "t = 60 # butlast rest @ [62]"
    by (simp add: is_placeholder_def)
  moreover have "60 \<notin> set (butlast rest)" "62 \<notin> set (butlast rest)"
    using t ar by (simp_all add: is_placeholder_def)
  ultimately show "\<exists>m. t = 60 # m @ [62] \<and> 60 \<notin> set m \<and> 62 \<notin> set m"
    by blast
next
  assume "\<exists>m. t = 60 # m @ [62] \<and> 60 \<notin> set m \<and> 62 \<notin> set m"
  then show "is_placeholder t" by (auto simp: is_placeholder_def)
qed

text \<open>
  Two different placeholders never overlap, so replacing one keeps every occurrence of
  the other.
\<close>

lemma placeholder_not_prefix:
  assumes t: "is_placeholder t" and u: "is_placeholder u" and tu: "t \<noteq> u"
  shows "\<not> prefix t u"
proof
  assume "prefix t u"
  then obtain w where w: "u = t @ w" by (auto simp: prefix_def)
  with tu have wne: "w \<noteq> []" by auto
  from t obtain m where m: "t = 60 # m @ [62]" by (auto simp: is_placeholder_iff)
  from u obtain n where n: "u = 60 # n @ [62]" and n62: "62 \<notin> set n"
    by (auto simp: is_placeholder_iff)
  from w m n have "n @ [62] = m @ [62] @ w" by simp
  then have "butlast (n @ [62]) = butlast (m @ [62] @ w)" by simp
  then have "n = m @ [62] @ butlast w" using wne by (simp add: butlast_append)
  with n62 show False by simp
qed

lemma placeholder_survives:
  assumes t: "is_placeholder t" and u: "is_placeholder u" and tu: "t \<noteq> u"
    and sub: "sublist t s"
  shows "sublist t (str_replace u new s)"
proof -
  from t obtain m where tm: "t = 60 # m @ [62]" and m: "60 \<notin> set m"
    by (auto simp: is_placeholder_iff)
  from u obtain n where un: "u = 60 # n @ [62]" and n: "60 \<notin> set n"
    by (auto simp: is_placeholder_iff)
  have "\<not> prefix u t" "\<not> prefix t u"
    using placeholder_not_prefix t u tu by auto
  with tm un m n sub show ?thesis
    by (simp add: str_replace_keeps_sublist del: str_replace.simps)
qed

subsection \<open>Facts about str.split\<close>

lemma str_split_aux_free:
  "c \<notin> set a \<Longrightarrow> str_split_aux [c] cur a = [cur @ a]"
  by (induction a arbitrary: cur) auto

lemma str_split_aux_sep:
  "c \<notin> set a \<Longrightarrow> str_split_aux [c] cur (a @ c # b) = (cur @ a) # str_split_aux [c] [] b"
  by (induction a arbitrary: cur) auto

text \<open>Replacing a single character is a map over the characters.\<close>

lemma str_replace_single:
  "str_replace [c] new s = concat (map (\<lambda>x. if x = c then new else [x]) s)"
  by (induction s) auto

lemma concat_map_single_absent [simp]:
  "c \<notin> set s \<Longrightarrow> concat (map (\<lambda>x. if x = c then new else [x]) s) = s"
  by (induction s) auto

lemma str_replace_single_absent:
  "c \<notin> set s \<Longrightarrow> str_replace [c] new s = s"
  by (simp add: str_replace_single)

lemma str_replace_single_append:
  "str_replace [c] new (xs @ ys) = str_replace [c] new xs @ str_replace [c] new ys"
  by (simp add: str_replace_single)

lemma str_split_aux_length:
  "length (str_split_aux (p # ps) cur s) \<ge> 1"
  by (induction "p # ps" cur s rule: str_split_aux.induct) auto

subsection \<open>Facts about digits\<close>

lemma hex_digit_ascii: "d < 16 \<Longrightarrow> hex_digit d < 128"
  by (simp add: hex_digit_def)

lemma hex_pad_ascii: "\<forall>c \<in> set (hex_pad k n). c < 128"
  by (induction k arbitrary: n) (auto simp: hex_digit_def)

lemma hex_pad_length [simp]: "length (hex_pad k n) = k"
  by (induction k arbitrary: n) auto

lemma nat_digits_ascii: "\<forall>c \<in> set (nat_digits n). 48 \<le> c \<and> c < 58"
proof (induction n rule: nat_digits.induct)
  case (1 n)
  then show ?case by (subst nat_digits.simps) auto
qed

lemma py_int_str_ascii: "\<forall>c \<in> set (py_int_str i). c < 128"
  using nat_digits_ascii [of "nat (- i)"] nat_digits_ascii [of "nat i"]
  by (auto simp: py_int_str_def)

lemma py_index_nth [py_simps]:
  "i < length xs \<Longrightarrow> py_index xs (int i) = Inr (xs ! i)"
  by (simp add: py_index_def)

lemma py_index_last [py_simps]:
  "xs \<noteq> [] \<Longrightarrow> py_index xs (-1) = Inr (last xs)"
  by (cases xs rule: rev_cases) (simp_all add: py_index_def nth_append)

lemma py_index_out [py_simps]:
  "length xs \<le> i \<Longrightarrow> py_index xs (int i) = Inl IndexError"
  by (simp add: py_index_def)

end
