(* ===== verification/PyJson.thy ===== *)
theory PyJson
  imports PyStr
begin

text \<open>
  The Python values the program handles: everything \<open>json.loads\<close> and \<open>json.load\<close>
  produce (the Pub/Sub payload and the block template), the subscript keys it uses, and
  the operations it applies to them: \<open>dict.get\<close>, subscripting \<open>x[k]\<close> and subscript
  assignment \<open>x[k1][k2] = v\<close>, \<open>str.replace\<close> and \<open>str.split\<close> called on a value of
  unknown type, the \<open>in\<close> test, \<open>str(x)\<close>, and \<open>json.dumps\<close> with its default
  arguments (\<open>ensure_ascii=True\<close>, separators \<open>', '\<close> and \<open>': '\<close>). These are
  library semantics, modelled from the Python documentation and CPython's behaviour.
\<close>

subsection \<open>Values\<close>

text \<open>
  A dictionary is an association list in insertion order. Its keys are \<open>pykey\<close>s:
  strings, which is all \<open>json.loads\<close> produces, or integers, which a subscript
  assignment \<open>d[0] = v\<close> inserts. A float is kept as its \<open>repr\<close> text.
\<close>

datatype pykey = KInt int | KStr pystr

datatype pyval =
    PNone
  | PBool bool
  | PInt int
  | PFloat pystr
  | PStr pystr
  | PList "pyval list"
  | PDict "(pykey \<times> pyval) list"

subsection \<open>dict.get and subscripts\<close>

text \<open>\<open>d.get(k)\<close>: the value of key \<open>k\<close> or \<open>None\<close>; only a \<open>dict\<close> has \<open>get\<close>.\<close>

definition py_get :: "pyval \<Rightarrow> pystr \<Rightarrow> pyval res" where
  "py_get d k =
     (case d of
        PDict kvs \<Rightarrow> Inr (case map_of kvs (KStr k) of None \<Rightarrow> PNone | Some v \<Rightarrow> v)
      | _ \<Rightarrow> Inl AttributeError)"

text \<open>
  \<open>x[k]\<close>: a list takes an integer index (negative from the end), a dict any key
  (\<open>KeyError\<close> when absent), a string an integer index giving a one-character string;
  a list or string indexed by a string, and every other value, raise \<open>TypeError\<close>.
\<close>

fun py_getitem :: "pyval \<Rightarrow> pykey \<Rightarrow> pyval res" where
  "py_getitem (PList xs) (KInt i) = py_index xs i"
| "py_getitem (PDict kvs) k = (case map_of kvs k of None \<Rightarrow> Inl KeyError | Some v \<Rightarrow> Inr v)"
| "py_getitem (PStr s) (KInt i) = res_bind (py_index s i) (\<lambda>c. Inr (PStr [c]))"
| "py_getitem _ _ = Inl TypeError"

text \<open>
  \<open>x[k] = v\<close>: a list replaces the element at a valid index (\<open>IndexError\<close> otherwise),
  a dict overwrites the value of an existing key in place or appends a new key; strings
  and the scalar values do not support item assignment.
\<close>

definition dict_set :: "(pykey \<times> pyval) list \<Rightarrow> pykey \<Rightarrow> pyval \<Rightarrow> (pykey \<times> pyval) list" where
  "dict_set kvs k v =
     (if k \<in> fst ` set kvs then map (\<lambda>(k', v'). if k' = k then (k', v) else (k', v')) kvs
      else kvs @ [(k, v)])"

fun py_setitem :: "pyval \<Rightarrow> pykey \<Rightarrow> pyval \<Rightarrow> pyval res" where
  "py_setitem (PList xs) (KInt i) v =
     (let n = int (length xs); j = (if i < 0 then n + i else i)
      in if 0 \<le> j \<and> j < n then Inr (PList (xs[nat j := v])) else Inl IndexError)"
| "py_setitem (PDict kvs) k v = Inr (PDict (dict_set kvs k v))"
| "py_setitem _ _ _ = Inl TypeError"

text \<open>
  A chain of subscripts \<open>x[k1]...[kn]\<close>, and the assignment \<open>x[k1]...[kn] = v\<close>:
  Python evaluates \<open>x[k1]...[kn-1]\<close> and assigns into that object, which is shared with
  \<open>x\<close>; on values this is an update of \<open>x\<close> along the path.
\<close>

fun py_get_path :: "pyval \<Rightarrow> pykey list \<Rightarrow> pyval res" where
  "py_get_path x [] = Inr x"
| "py_get_path x (k # ks) = res_bind (py_getitem x k) (\<lambda>y. py_get_path y ks)"

fun py_set_path :: "pyval \<Rightarrow> pykey list \<Rightarrow> pyval \<Rightarrow> pyval res" where
  "py_set_path x [] v = Inr v"
| "py_set_path x [k] v = py_setitem x k v"
| "py_set_path x (k # k' # ks) v =
     res_bind (py_getitem x k) (\<lambda>y. res_bind (py_set_path y (k' # ks) v) (\<lambda>y'. py_setitem x k y'))"

subsection \<open>String methods on values\<close>

text \<open>
  \<open>x.replace(old, new)\<close> on a value: only a \<open>str\<close> has the method
  (\<open>AttributeError\<close>), and both arguments must be strings (\<open>TypeError\<close>).
\<close>

definition py_replace :: "pyval \<Rightarrow> pyval \<Rightarrow> pyval \<Rightarrow> pyval res" where
  "py_replace x old new =
     (case x of
        PStr s \<Rightarrow> (case (old, new) of
                     (PStr ol, PStr nw) \<Rightarrow> Inr (PStr (str_replace ol nw s))
                   | _ \<Rightarrow> Inl TypeError)
      | _ \<Rightarrow> Inl AttributeError)"

text \<open>\<open>x.split(sep)\<close> on a value, giving the list of pieces.\<close>

definition py_split :: "pyval \<Rightarrow> pystr \<Rightarrow> pystr list res" where
  "py_split x sep = (case x of PStr s \<Rightarrow> str_split sep s | _ \<Rightarrow> Inl AttributeError)"

text \<open>
  \<open>needle in x\<close> for a string \<open>needle\<close>: a substring test on a \<open>str\<close>, element
  equality on a \<open>list\<close> (a string equals only an equal string), key membership on a
  \<open>dict\<close>; any other value is not iterable (\<open>TypeError\<close>).
\<close>

fun py_contains_str :: "pystr \<Rightarrow> pyval \<Rightarrow> bool res" where
  "py_contains_str n (PStr s) = Inr (sublist n s)"
| "py_contains_str n (PList xs) = Inr (PStr n \<in> set xs)"
| "py_contains_str n (PDict kvs) = Inr (KStr n \<in> fst ` set kvs)"
| "py_contains_str n _ = Inl TypeError"

subsection \<open>str() and repr()\<close>

text \<open>
  \<open>repr\<close> of a string, as CPython writes it: single quotes unless the string contains
  a single quote and no double quote; backslash and the chosen quote escaped; tab,
  newline and carriage return as \<open>\t \n \r\<close>; other control characters and DEL as
  \<open>\xhh\<close>; other characters as they are when printable, escaped when not. Which
  code points above U+00FF are printable is a property of the Unicode database; the
  model treats the surrogates as the only non-printable ones there (exact below U+0100).
\<close>

definition py_printable :: "nat \<Rightarrow> bool" where
  "py_printable c \<longleftrightarrow>
     (32 \<le> c \<and> c < 127) \<or> (160 < c \<and> c \<noteq> 173 \<and> \<not> (55296 \<le> c \<and> c < 57344))"

definition repr_char :: "nat \<Rightarrow> nat \<Rightarrow> pystr" where
  "repr_char q c =
     (if c = q \<or> c = 92 then [92, c]
      else if c = 9 then [92, 116] else if c = 10 then [92, 110] else if c = 13 then [92, 114]
      else if py_printable c then [c]
      else if c < 256 then 92 # 120 # hex_pad 2 c
      else if c < 65536 then 92 # 117 # hex_pad 4 c
      else 92 # 85 # hex_pad 8 c)"

definition py_repr_str :: "pystr \<Rightarrow> pystr" where
  "py_repr_str s =
     (let q = (if 39 \<in> set s \<and> 34 \<notin> set s then 34 else 39)
      in q # concat (map (repr_char q) s) @ [q])"

text \<open>\<open>sep.join(xs)\<close>.\<close>

fun str_join :: "pystr \<Rightarrow> pystr list \<Rightarrow> pystr" where
  "str_join sep [] = []"
| "str_join sep [x] = x"
| "str_join sep (x # y # ys) = x @ sep @ str_join sep (y # ys)"

definition key_repr :: "pykey \<Rightarrow> pystr" where
  "key_repr k = (case k of KInt i \<Rightarrow> py_int_str i | KStr s \<Rightarrow> py_repr_str s)"

fun py_repr :: "pyval \<Rightarrow> pystr" where
  "py_repr PNone = py ''None''"
| "py_repr (PBool b) = (if b then py ''True'' else py ''False'')"
| "py_repr (PInt i) = py_int_str i"
| "py_repr (PFloat r) = r"
| "py_repr (PStr s) = py_repr_str s"
| "py_repr (PList xs) = 91 # str_join (py '', '') (map py_repr xs) @ [93]"
| "py_repr (PDict kvs) =
     123 # str_join (py '', '') (map (\<lambda>(k, v). key_repr k @ py '': '' @ py_repr v) kvs) @ [125]"

text \<open>\<open>str(x)\<close>: a string is itself, everything else its \<open>repr\<close>.\<close>

definition py_str :: "pyval \<Rightarrow> pystr" where
  "py_str x = (case x of PStr s \<Rightarrow> s | _ \<Rightarrow> py_repr x)"

subsection \<open>json.dumps\<close>

text \<open>
  A string is written between double quotes; \<open>"\<close> and \<open>\\<close> are escaped, the
  five control characters with a short escape use it, and every other character outside
  the printable ASCII range \<open>' '..'~'\<close> becomes \<open>\uhhhh\<close>, characters beyond the
  Basic Multilingual Plane as a surrogate pair (\<open>ensure_ascii=True\<close>).
\<close>

definition json_escape_char :: "nat \<Rightarrow> pystr" where
  "json_escape_char c =
     (if c = 34 then [92, 34] else if c = 92 then [92, 92]
      else if c = 8 then [92, 98] else if c = 12 then [92, 102]
      else if c = 10 then [92, 110] else if c = 13 then [92, 114]
      else if c = 9 then [92, 116]
      else if 32 \<le> c \<and> c \<le> 126 then [c]
      else if c < 65536 then 92 # 117 # hex_pad 4 c
      else let n = c - 65536
           in 92 # 117 # hex_pad 4 (55296 + n div 1024) @ 92 # 117 # hex_pad 4 (56320 + n mod 1024))"

definition json_str :: "pystr \<Rightarrow> pystr" where
  "json_str s = 34 # concat (map json_escape_char s) @ [34]"

text \<open>A float is written as its \<open>repr\<close>, except that NaN and the infinities get JavaScript names.\<close>

definition json_float :: "pystr \<Rightarrow> pystr" where
  "json_float r =
     (if r = py ''nan'' then py ''NaN'' else if r = py ''inf'' then py ''Infinity''
      else if r = py ''-inf'' then py ''-Infinity'' else r)"

definition json_key :: "pykey \<Rightarrow> pystr" where
  "json_key k = (case k of KInt i \<Rightarrow> json_str (py_int_str i) | KStr s \<Rightarrow> json_str s)"

fun json_dumps :: "pyval \<Rightarrow> pystr" where
  "json_dumps PNone = py ''null''"
| "json_dumps (PBool b) = (if b then py ''true'' else py ''false'')"
| "json_dumps (PInt i) = py_int_str i"
| "json_dumps (PFloat r) = json_float r"
| "json_dumps (PStr s) = json_str s"
| "json_dumps (PList xs) = 91 # str_join (py '', '') (map json_dumps xs) @ [93]"
| "json_dumps (PDict kvs) =
     123 # str_join (py '', '') (map (\<lambda>(k, v). json_key k @ py '': '' @ json_dumps v) kvs) @ [125]"

subsection \<open>Predicates on keys, paths and values\<close>

text \<open>
  A key that names one slot whatever the length of a list (a string, or an index that
  is not negative); whether a key is a string; whether two paths lead to different
  slots; and whether every float of a value has an ASCII \<open>repr\<close>, as every
  \<open>float.__repr__\<close> does.
\<close>

fun key_nonneg :: "pykey \<Rightarrow> bool" where
  "key_nonneg (KInt i) = (0 \<le> i)"
| "key_nonneg (KStr s) = True"

fun is_kstr :: "pykey \<Rightarrow> bool" where
  "is_kstr (KStr s) = True"
| "is_kstr (KInt i) = False"

fun paths_diverge :: "pykey list \<Rightarrow> pykey list \<Rightarrow> bool" where
  "paths_diverge (a # as) (b # bs) = (if a = b then paths_diverge as bs else True)"
| "paths_diverge _ _ = False"

fun floats_ascii :: "pyval \<Rightarrow> bool" where
  "floats_ascii (PFloat r) = (\<forall>c \<in> set r. c < 128)"
| "floats_ascii (PList xs) = list_all floats_ascii xs"
| "floats_ascii (PDict kvs) = list_all (\<lambda>(k, v). floats_ascii v) kvs"
| "floats_ascii _ = True"

text \<open>
  A value is well formed when the keys of each of its dicts are distinct, as in every
  value \<open>json.loads\<close> returns.
\<close>

fun wf_json :: "pyval \<Rightarrow> bool" where
  "wf_json (PList xs) = list_all wf_json xs"
| "wf_json (PDict kvs) = (distinct (map fst kvs) \<and> list_all (\<lambda>(k, v). wf_json v) kvs)"
| "wf_json v = True"

subsection \<open>Subscript assignment along a path\<close>

text \<open>
  The read-after-write laws of subscript assignment: after \<open>x[p] = v\<close> the path
  \<open>p\<close> reads \<open>v\<close> and every path that leaves \<open>p\<close> reads what it read before; an
  assignment along a path that can be read succeeds.
\<close>
lemma map_of_overwrite:
  "map_of (map (\<lambda>(k', v'). if k' = k then (k', v) else (k', v')) kvs) x =
     (if x = k \<and> k \<in> fst ` set kvs then Some v else map_of kvs x)"
proof (induction kvs arbitrary: x)
  case (Cons kv kvs)
  obtain a b where "kv = (a, b)" by fastforce
  then show ?case by (simp add: Cons.IH)
qed simp

lemma map_of_dict_set [simp]: "map_of (dict_set kvs k v) = (map_of kvs)(k \<mapsto> v)"
proof
  fix x
  show "map_of (dict_set kvs k v) x = ((map_of kvs)(k \<mapsto> v)) x"
  proof (cases "k \<in> fst ` set kvs")
    case True
    then show ?thesis by (simp add: dict_set_def map_of_overwrite)
  next
    case False
    then have "map_of kvs k = None" by (simp add: map_of_eq_None_iff)
    with False show ?thesis by (auto simp: dict_set_def map_add_def split: option.splits)
  qed
qed

lemma py_index_update_other:
  "0 \<le> i \<Longrightarrow> 0 \<le> j \<Longrightarrow> i \<noteq> j \<Longrightarrow> i < int (length xs) \<Longrightarrow>
   py_index (xs[nat i := v]) j = py_index xs j"
  by (auto simp: py_index_def nth_list_update nat_eq_iff)

lemma getitem_setitem_same:
  "py_setitem x k v = Inr x' \<Longrightarrow> py_getitem x' k = Inr v"
  by (induction x k v rule: py_setitem.induct)
     (auto simp: py_index_def Let_def split: if_splits)

lemma getitem_setitem_other:
  "py_setitem x k v = Inr x' \<Longrightarrow> k' \<noteq> k \<Longrightarrow> key_nonneg k \<Longrightarrow> key_nonneg k' \<Longrightarrow>
   py_getitem x' k' = py_getitem x k'"
proof (induction x k v rule: py_setitem.induct)
  case (1 xs i v)
  then show ?case
    by (cases k') (auto simp: Let_def py_index_update_other split: if_splits)
qed auto

lemma get_set_path_same:
  "py_set_path x p v = Inr x' \<Longrightarrow> p \<noteq> [] \<Longrightarrow> py_get_path x' p = Inr v"
proof (induction x p v arbitrary: x' rule: py_set_path.induct)
  case (2 x k v)
  then show ?case by (simp add: getitem_setitem_same)
next
  case (3 x k k' ks v)
  then show ?case
    by (auto simp: res_bind_eq_Inr getitem_setitem_same)
qed simp

lemma get_set_path_other:
  "py_set_path x p v = Inr x' \<Longrightarrow> paths_diverge p q \<Longrightarrow>
   list_all key_nonneg p \<Longrightarrow> list_all key_nonneg q \<Longrightarrow>
   py_get_path x' q = py_get_path x q"
proof (induction x p v arbitrary: x' q rule: py_set_path.induct)
  case (2 x k v)
  then obtain b q' where q: "q = b # q'" and "b \<noteq> k"
    by (cases q) (auto split: if_splits)
  with 2 show ?case by (simp add: getitem_setitem_other)
next
  case (3 x k k' ks v)
  from "3.prems"(1) obtain y y' where y: "py_getitem x k = Inr y"
    and y': "py_set_path y (k' # ks) v = Inr y'" and x': "py_setitem x k y' = Inr x'"
    by (auto simp: res_bind_eq_Inr)
  from "3.prems"(2) obtain b q' where q: "q = b # q'" by (cases q) auto
  show ?case
  proof (cases "b = k")
    case True
    with "3.prems"(2) q have "paths_diverge (k' # ks) q'" by simp
    with "3.IH" [OF y'] "3.prems"(3,4) q have "py_get_path y' q' = py_get_path y q'"
      by simp
    with True q y x' show ?thesis by (simp add: getitem_setitem_same)
  next
    case False
    with q x' "3.prems"(3,4) show ?thesis by (simp add: getitem_setitem_other)
  qed
qed simp

lemma getitem_kstr_dict: "py_getitem x (KStr s) = Inr y \<Longrightarrow> \<exists>kvs. x = PDict kvs"
  by (cases x) auto

lemma setitem_ok:
  "py_getitem x k = Inr y \<Longrightarrow> (\<forall>s. x \<noteq> PStr s) \<Longrightarrow> \<exists>x'. py_setitem x k v = Inr x'"
  by (cases x; cases k) (auto simp: py_index_def Let_def split: if_splits)

lemma set_path_ok:
  "py_get_path x (k # ks) = Inr w \<Longrightarrow> (\<forall>s. x \<noteq> PStr s) \<Longrightarrow> list_all is_kstr ks \<Longrightarrow>
   \<exists>x'. py_set_path x (k # ks) v = Inr x'"
proof (induction ks arbitrary: x k w)
  case Nil
  then show ?case by (auto simp: res_bind_eq_Inr intro: setitem_ok)
next
  case (Cons k' ks)
  from Cons.prems(1) obtain y where y: "py_getitem x k = Inr y"
    and yw: "py_get_path y (k' # ks) = Inr w"
    by (auto simp: res_bind_eq_Inr)
  from Cons.prems(3) obtain s' where k': "k' = KStr s'" by (cases k') auto
  from yw k' obtain z where "py_getitem y (KStr s') = Inr z"
    by (auto simp: res_bind_eq_Inr)
  then obtain kvs where "y = PDict kvs" using getitem_kstr_dict by blast
  with Cons.IH [OF yw] Cons.prems(3) obtain y' where y': "py_set_path y (k' # ks) v = Inr y'"
    by auto
  from setitem_ok [OF y Cons.prems(2)] obtain x' where "py_setitem x k y' = Inr x'"
    by blast
  with y y' show ?case by simp
qed

lemma set_path_list:
  "py_set_path (PList xs) (k # ks) v = Inr x' \<Longrightarrow> \<exists>xs'. x' = PList xs' \<and> length xs' = length xs"
  by (cases ks) (auto simp: res_bind_eq_Inr Let_def split: if_splits elim: py_setitem.elims)

subsection \<open>json.dumps writes ASCII\<close>

lemma set_str_join: "set (str_join sep xs) \<subseteq> set sep \<union> (\<Union>x \<in> set xs. set x)"
  by (induction sep xs rule: str_join.induct) auto

lemma json_escape_char_ascii: "c \<in> set (json_escape_char x) \<Longrightarrow> c < 128"
  by (auto simp: json_escape_char_def Let_def dest: hex_pad_ascii [rule_format]
           split: if_splits)

lemma json_str_ascii: "c \<in> set (json_str s) \<Longrightarrow> c < 128"
  by (auto simp: json_str_def dest: json_escape_char_ascii)

lemma json_key_ascii: "c \<in> set (json_key k) \<Longrightarrow> c < 128"
  by (cases k) (auto simp: json_key_def dest: json_str_ascii)

lemma json_join_ascii:
  assumes "c \<in> set (str_join (py '', '') xs)"
    and "\<And>x c. x \<in> set xs \<Longrightarrow> c \<in> set x \<Longrightarrow> c < 128"
  shows "c < 128"
  using set_str_join [of "py '', ''" xs] assms by auto

lemma json_dumps_ascii: "floats_ascii v \<Longrightarrow> c \<in> set (json_dumps v) \<Longrightarrow> c < 128"
proof (induction v arbitrary: c rule: json_dumps.induct)
  case (4 r)
  then show ?case by (auto simp: json_float_def split: if_splits)
next
  case (5 s)
  then show ?case by (simp add: json_str_ascii)
next
  case (3 i)
  then show ?case using py_int_str_ascii by auto
next
  case (6 xs)
  have "c < 128" if "c \<in> set (str_join (py '', '') (map json_dumps xs))"
    using that by (rule json_join_ascii) (use "6" in \<open>auto simp: list_all_iff\<close>)
  with "6.prems" show ?case by auto
next
  case (7 kvs)
  have "c < 128"
    if "c \<in> set (str_join (py '', '') (map (\<lambda>(k, v). json_key k @ py '': '' @ json_dumps v) kvs))"
    using that
  proof (rule json_join_ascii)
    fix x d
    assume "x \<in> set (map (\<lambda>(k, v). json_key k @ py '': '' @ json_dumps v) kvs)" "d \<in> set x"
    then obtain k v where kv: "(k, v) \<in> set kvs" and "d \<in> set (json_key k @ py '': '' @ json_dumps v)"
      by auto
    moreover have "floats_ascii v" using "7.prems"(1) kv by (auto simp: list_all_iff)
    ultimately show "d < 128" using "7.IH" [OF kv refl] json_key_ascii by auto
  qed
  with "7.prems" show ?case by auto
qed (auto split: if_splits)

end
