(* ===== verification/FormatText.thy ===== *)
theory FormatText
  imports PyJson
begin

text \<open>
  \<open>format_text\<close> (main.py, lines 96--102) cleans the JSON text of a finding's
  explanation, recommendation and exception instructions before it is put into a
  message block: it deletes every backslash, drops one leading and one trailing double
  quote, and with \<open>text2CodeBlocks\<close> turns the remaining double quotes into backticks.
  The lemmas say what it shows for a string that \<open>json.dumps\<close> wrote (what the chat
  reader sees for each character), when it is idempotent, and that its output never
  holds a backslash.
\<close>

text \<open>Code points used below: backslash 92, double quote 34, backtick 96.\<close>

definition format_text :: "pystr \<Rightarrow> bool \<Rightarrow> pystr" where
  "format_text val text2CodeBlocks =
     (let val = str_replace [92] [] val;
          val = (if prefix [34] val then drop 1 val else val);
          val = (if suffix [34] val then take (length val - 1) val else val)
      in if text2CodeBlocks then str_replace [34] [96] val else val)"

text \<open>
  What the reader sees for a character of a string after \<open>json.dumps\<close> and
  \<open>format_text\<close>: printable ASCII as itself except the backslash, which vanishes; the
  double quote as itself; the control characters with a short JSON escape as the bare
  letter of the escape (a newline shows as \<open>n\<close>); every other character as \<open>u\<close> and
  four hexadecimal digits, twice for a character beyond the Basic Multilingual Plane.
\<close>

definition shown_char :: "nat \<Rightarrow> pystr" where
  "shown_char c =
     (if c = 92 then []
      else if c = 8 then [98] else if c = 12 then [102]
      else if c = 10 then [110] else if c = 13 then [114] else if c = 9 then [116]
      else if 32 \<le> c \<and> c \<le> 126 then [c]
      else if c < 65536 then 117 # hex_pad 4 c
      else let n = c - 65536
           in 117 # hex_pad 4 (55296 + n div 1024) @ 117 # hex_pad 4 (56320 + n mod 1024))"

definition backticks :: "pystr \<Rightarrow> pystr" where
  "backticks s = map (\<lambda>x. if x = 34 then 96 else x) s"

subsection \<open>Lemmas\<close>

lemma hex_digit_not_92: "hex_digit d \<noteq> 92"
  by (simp add: hex_digit_def)

lemma hex_pad_no_backslash: "92 \<notin> set (hex_pad k n)"
  by (induction k arbitrary: n) (auto simp: hex_digit_def)

lemma remove_backslash_escape:
  "str_replace [92] [] (json_escape_char c) = shown_char c"
  by (simp add: json_escape_char_def shown_char_def str_replace_single Let_def
      hex_pad_no_backslash)

lemma str_replace_char:
  "str_replace [c] [d] s = map (\<lambda>x. if x = c then d else x) s"
  by (induction s) auto

lemma str_replace_single_concat:
  "str_replace [c] new (concat xss) = concat (map (str_replace [c] new) xss)"
  by (induction xss) (simp_all add: str_replace_single_append)

lemma format_text_unfold:
  assumes "str_replace [92] [] val = 34 # r @ [34]"
  shows "format_text val b = (if b then backticks r else r)"
  using assms by (simp add: format_text_def backticks_def str_replace_char)

lemma format_text_code_no_quote: "34 \<notin> set (format_text x True)"
  by (auto simp: format_text_def Let_def str_replace_char)

lemma format_text_no_92: "92 \<notin> set (format_text x b)"
proof -
  have r: "92 \<notin> set (str_replace [92] [] x)"
    by (simp add: str_replace_single)
  show ?thesis
    using r by (auto simp: format_text_def Let_def str_replace_char dest: in_set_dropD in_set_takeD)
qed

lemma dumps_str_unescaped:
  "str_replace [92] [] (json_dumps (PStr s)) = 34 # concat (map shown_char s) @ [34]"
proof -
  have "str_replace [92] [] (concat (map json_escape_char s)) = concat (map shown_char s)"
    by (simp add: str_replace_single_concat remove_backslash_escape comp_def)
  then show ?thesis
    by (simp add: json_str_def str_replace_single_append)
qed

subsection \<open>What the reader sees\<close>

text \<open>
  C15: for any string value, \<open>format_text\<close> applied to what \<open>json.dumps\<close> writes for
  it shows each character as \<open>shown_char\<close> says, with double quotes turned into
  backticks when \<open>text2CodeBlocks\<close> is set. In particular a newline of an explanation
  is shown as the letter \<open>n\<close>, a backslash disappears and a non-ASCII letter becomes
  \<open>u\<close> and four hexadecimal digits.
\<close>

theorem format_text_json_str:
  "format_text (json_dumps (PStr s)) b =
     (if b then backticks (concat (map shown_char s)) else concat (map shown_char s))"
  by (rule format_text_unfold [OF dumps_str_unescaped])

lemma format_text_newline_example:
  "format_text (json_dumps (PStr [97, 10, 98])) False = [97, 110, 98]"
  using format_text_unfold [OF dumps_str_unescaped, of "[97, 10, 98]" False]
  by (simp add: shown_char_def)

text \<open>
  C16: a string of printable ASCII without backslashes comes back unchanged from
  \<open>json.dumps\<close> followed by \<open>format_text\<close> (without code blocks): the round trip
  the function was written for.
\<close>

theorem format_text_clean:
  assumes "\<forall>c \<in> set s. 32 \<le> c \<and> c \<le> 126 \<and> c \<noteq> 92"
  shows "format_text (json_dumps (PStr s)) False = s"
proof -
  have "concat (map shown_char s) = s"
    using assms by (induction s) (auto simp: shown_char_def)
  then show ?thesis using format_text_unfold [OF dumps_str_unescaped, of s False] by simp
qed

theorem format_text_clean_witness:
  "format_text (json_dumps (PStr (py ''Enable 2FA''))) False = py ''Enable 2FA''"
  by (rule format_text_clean) simp

subsection \<open>Idempotence\<close>

text \<open>
  C26: \<open>format_text\<close> only deletes characters and, with \<open>text2CodeBlocks\<close>, turns
  double quotes into backticks: its output has no backslash, and every other character
  of it is a character of the input (or a backtick that replaced a double quote).
\<close>

theorem format_text_no_backslash:
  "92 \<notin> set (format_text x b) \<and>
   set (format_text x b) \<subseteq> set x \<union> (if b then {96} else {})"
proof
  show "92 \<notin> set (format_text x b)" by (rule format_text_no_92)
  have "set (str_replace [92] [] x) \<subseteq> set x"
    by (auto simp: str_replace_single)
  then show "set (format_text x b) \<subseteq> set x \<union> (if b then {96} else {})"
    by (auto simp: format_text_def Let_def str_replace_char dest: in_set_dropD in_set_takeD)
qed

text \<open>
  C6: with \<open>text2CodeBlocks\<close> set, \<open>format_text\<close> is idempotent: a second
  application changes nothing.
\<close>

theorem format_text_code_idem:
  "format_text (format_text x True) True = format_text x True"
proof -
  let ?y = "format_text x True"
  have "92 \<notin> set ?y" "34 \<notin> set ?y"
    by (rule format_text_no_92, rule format_text_code_no_quote)
  then have "\<not> prefix [34] ?y" "\<not> suffix [34] ?y"
    "str_replace [92] [] ?y = ?y" "str_replace [34] [96] ?y = ?y"
    by (auto simp: str_replace_single_absent prefix_def suffix_def)
  then show ?thesis
    by (simp only: format_text_def Let_def if_False if_True)
qed

text \<open>
  C7: without code blocks, a text is left unchanged by \<open>format_text\<close> exactly when
  it has no backslash and neither starts nor ends with a double quote. So the function
  is idempotent on a text exactly when its first result is of that form.
\<close>

theorem format_text_fixpoint:
  "format_text y False = y \<longleftrightarrow> 92 \<notin> set y \<and> \<not> prefix [34] y \<and> \<not> suffix [34] y"
proof
  assume fx: "format_text y False = y"
  then have "92 \<notin> set y" using format_text_no_92 [of y False] by simp
  then have r: "str_replace [92] [] y = y" by (rule str_replace_single_absent)
  show "92 \<notin> set y \<and> \<not> prefix [34] y \<and> \<not> suffix [34] y"
  proof (intro conjI)
    show "92 \<notin> set y" by fact
    show "\<not> prefix [34] y"
    proof
      assume p: "prefix [34] y"
      have "length (format_text y False) < length y"
        using p r by (auto simp: format_text_def Let_def prefix_def)
      with fx show False by simp
    qed
    show "\<not> suffix [34] y"
    proof
      assume s: "suffix [34] y"
      have "length (format_text y False) < length y"
        using s r by (auto simp: format_text_def Let_def suffix_def)
      with fx show False by simp
    qed
  qed
next
  assume "92 \<notin> set y \<and> \<not> prefix [34] y \<and> \<not> suffix [34] y"
  then show "format_text y False = y"
    by (simp add: format_text_def str_replace_single_absent)
qed

lemma format_text_strip_pair: "92 \<notin> set t \<Longrightarrow> format_text (34 # t @ [34]) False = t"
  by (simp add: format_text_def str_replace_single_absent suffix_def)

text \<open>
  C27: without code blocks \<open>format_text\<close> strips one pair of enclosing double quotes per
  application: applied \<open>n\<close> times to a text without backslashes enclosed in \<open>n\<close>
  pairs of quotes, it gives back the text, so it is not idempotent (\<open>""a""\<close> becomes
  \<open>"a"\<close> and then \<open>a\<close>).
\<close>

theorem format_text_strips_one_pair:
  "92 \<notin> set t \<Longrightarrow> ((\<lambda>v. format_text v False) ^^ n) (replicate n 34 @ t @ replicate n 34) = t"
proof (induction n)
  case (Suc n)
  have "92 \<notin> set (replicate n 34 @ t @ replicate n 34)" using Suc.prems by simp
  moreover have "replicate (Suc n) (34::nat) @ t @ replicate (Suc n) 34 =
      34 # (replicate n 34 @ t @ replicate n 34) @ [34]"
    by (metis append.assoc append_Cons replicate_Suc replicate_append_same)
  ultimately have "format_text (replicate (Suc n) 34 @ t @ replicate (Suc n) 34) False =
      replicate n 34 @ t @ replicate n 34"
    by (metis format_text_strip_pair)
  then show ?case using Suc by (simp add: funpow_Suc_right del: funpow.simps)
qed simp

theorem format_text_strips_one_pair_witness:
  "92 \<notin> set [97::nat] \<and>
   ((\<lambda>v. format_text v False) ^^ 2) (replicate 2 34 @ [97] @ replicate 2 34) = [97] \<and>
   format_text (format_text [34, 34, 97, 34, 34] False) False \<noteq> format_text [34, 34, 97, 34, 34] False"
  using format_text_strips_one_pair [of "[97]" 2] format_text_strips_one_pair [of "[34, 97, 34]" 1]
  by (simp add: numeral_2_eq_2)

end
