(* ===== verification/MergeTemplate.thy ===== *)
theory MergeTemplate
  imports FormatText
begin

text \<open>
  \<open>merge_template(list_data, payload)\<close> (main.py, lines 48--93) fills the five blocks
  of the Slack message template with the fields of a Security Command Center finding.
  It is modelled in the two parts the code has: lines 49--57 read the finding, its
  resource and source properties, split the finding's resource name into the
  organization, finding and source ids and choose the severity marker
  (\<open>merge_fields\<close>, with the local variables as the record \<open>finding_info\<close>); lines
  59--93 build the console deep link (\<open>scc_finding_url\<close>) and perform the six
  assignments \<open>list_data[i][...][...] = list_data[i][...][...].replace(...)...\<close>
  (\<open>fill_blocks\<close>, one \<open>subst_field\<close> per assignment). The template is mutated in
  place by the code; the model returns the updated template.
\<close>

subsection \<open>Reading the finding (lines 49--57)\<close>

text \<open>
  Lines 53--55: \<open>finding.get("name").split("/")\<close> indexed by \<open>[1]\<close>, \<open>[-1]\<close> and
  \<open>[3]\<close>, in this order, giving the organization, finding and source ids.
\<close>

definition parse_finding_name :: "pyval \<Rightarrow> (pystr \<times> pystr \<times> pystr) res" where
  "parse_finding_name name =
     res_bind (py_split name (py ''/'')) (\<lambda>parts.
     res_bind (py_index parts 1) (\<lambda>org_id.
     res_bind (py_index parts (-1)) (\<lambda>finding_id.
     res_bind (py_index parts 3) (\<lambda>source_id.
     Inr (org_id, finding_id, source_id)))))"

text \<open>Line 57: \<open>":warning:" if "HIGH" in severity else ""\<close>.\<close>

definition sev_marker :: "pyval \<Rightarrow> pystr res" where
  "sev_marker severity =
     res_bind (py_contains_str (py ''HIGH'') severity) (\<lambda>high.
     Inr (if high then py '':warning:'' else []))"

record finding_info =
  fi_finding :: pyval
  fi_resource :: pyval
  fi_props :: pyval
  fi_org :: pystr
  fi_fid :: pystr
  fi_src :: pystr
  fi_severity :: pyval
  fi_emo :: pystr

definition merge_fields :: "pyval \<Rightarrow> finding_info res" where
  "merge_fields payload =
     res_bind (py_get payload (py ''finding'')) (\<lambda>finding.
     res_bind (py_get payload (py ''resource'')) (\<lambda>resource.
     res_bind (py_get finding (py ''sourceProperties'')) (\<lambda>props.
     res_bind (py_get finding (py ''name'')) (\<lambda>name.
     res_bind (parse_finding_name name) (\<lambda>(org_id, finding_id, source_id).
     res_bind (py_get finding (py ''severity'')) (\<lambda>severity.
     res_bind (sev_marker severity) (\<lambda>sev_emo.
     Inr \<lparr>fi_finding = finding, fi_resource = resource, fi_props = props,
          fi_org = org_id, fi_fid = finding_id, fi_src = source_id,
          fi_severity = severity, fi_emo = sev_emo\<rparr>)))))))"

subsection \<open>The deep link (lines 59--65)\<close>

definition scc_finding_url :: "pystr \<Rightarrow> pystr \<Rightarrow> pystr \<Rightarrow> pystr" where
  "scc_finding_url org_id source_id finding_id =
     py ''https://console.cloud.google.com/security/command-center/findings''
     @ py ''?organizations/'' @ org_id @ py ''/sources/'' @ source_id @ py ''/''
     @ py ''findings/'' @ finding_id @ py ''=,true&orgonly=true''
     @ py ''&organizationId='' @ org_id @ py ''&supportedpurview=organizationId''
     @ py ''&view_type=vt_finding_type&vt_finding_type=All''
     @ py ''&resourceId=organizations/'' @ org_id @ py ''/sources/'' @ source_id @ py ''/''
     @ py ''findings/'' @ finding_id"

subsection \<open>Filling the blocks (lines 68--93)\<close>

text \<open>
  One assignment \<open>d[p] = d[p].replace(old1, new1).replace(old2, new2)...\<close>. The right
  side is evaluated first: the subscripts, then for each call the attribute
  \<open>replace\<close> (only a \<open>str\<close> has it), then the argument (which may itself raise, as
  \<open>resource.get(...)\<close> does on \<open>None\<close>), then the call. Then the assignment along
  the path.
\<close>

fun replace_chain :: "pyval \<Rightarrow> (pystr \<times> pyval res) list \<Rightarrow> pyval res" where
  "replace_chain x [] = Inr x"
| "replace_chain x ((old, new) # rs) =
     (case x of
        PStr _ \<Rightarrow> res_bind new (\<lambda>n. res_bind (py_replace x (PStr old) n) (\<lambda>y. replace_chain y rs))
      | _ \<Rightarrow> Inl AttributeError)"

definition subst_field :: "pyval \<Rightarrow> pykey list \<Rightarrow> (pystr \<times> pyval res) list \<Rightarrow> pyval res" where
  "subst_field d p rs =
     res_bind (py_get_path d p) (\<lambda>x. res_bind (replace_chain x rs) (\<lambda>y. py_set_path d p y))"

definition text_path :: "int \<Rightarrow> pykey list" where
  "text_path i = [KInt i, KStr (py ''text''), KStr (py ''text'')]"

definition url_path :: "pykey list" where
  "url_path = [KInt 1, KStr (py ''accessory''), KStr (py ''url'')]"

definition fill_blocks :: "pyval \<Rightarrow> finding_info \<Rightarrow> pyval res" where
  "fill_blocks list_data fi =
     (let url = scc_finding_url (fi_org fi) (fi_src fi) (fi_fid fi) in
      res_bind (subst_field list_data (text_path 0)
        [(py ''<SUBJECT>'', py_get (fi_finding fi) (py ''category'')),
         (py ''<WEB_LINK>'', Inr (PStr url))]) (\<lambda>d0.
      res_bind (subst_field d0 (text_path 1)
        [(py ''<PROJECT_ID>'',
          res_bind (py_get (fi_resource fi) (py ''projectDisplayName'')) (\<lambda>v. Inr (PStr (py_str v)))),
         (py ''<SEVERITY>'', Inr (fi_severity fi)),
         (py ''<SEV_EMO>'', Inr (PStr (fi_emo fi))),
         (py ''<STATE>'', py_get (fi_finding fi) (py ''state'')),
         (py ''<TIMESTAMP>'', py_get (fi_finding fi) (py ''createTime''))]) (\<lambda>d1.
      res_bind (subst_field d1 url_path [(py ''<WEB_LINK>'', Inr (PStr url))]) (\<lambda>d2.
      res_bind (py_get (fi_props fi) (py ''Explanation'')) (\<lambda>e.
      res_bind (subst_field d2 (text_path 2)
        [(py ''<EXPLANATION>'', Inr (PStr (format_text (json_dumps e) False)))]) (\<lambda>d3.
      res_bind (py_get (fi_props fi) (py ''Recommendation'')) (\<lambda>r.
      res_bind (subst_field d3 (text_path 3)
        [(py ''<RECOMMENDATION>'', Inr (PStr (format_text (json_dumps r) False)))]) (\<lambda>d4.
      res_bind (py_get (fi_props fi) (py ''ExceptionInstructions'')) (\<lambda>i.
      subst_field d4 (text_path 4)
        [(py ''<INSTRUCT>'', Inr (PStr (format_text (json_dumps i) True)))])))))))))"

definition merge_template :: "pyval \<Rightarrow> pyval \<Rightarrow> pyval res" where
  "merge_template list_data payload = res_bind (merge_fields payload) (fill_blocks list_data)"

subsection \<open>An example template and finding\<close>

text \<open>
  A template with the five blocks and placeholders the code expects, and a finding as the
  Security Command Center notification carries it; the witnesses below run the code on them.
\<close>

definition text_block :: "pystr \<Rightarrow> pyval" where
  "text_block s = PDict [(KStr (py ''text''), PDict [(KStr (py ''text''), PStr s)])]"

definition example_template :: pyval where
  "example_template = PList
     [text_block (py ''*<SUBJECT>* <WEB_LINK>''),
      PDict [(KStr (py ''text''),
              PDict [(KStr (py ''text''), PStr (py ''<PROJECT_ID> <SEVERITY><SEV_EMO> <STATE> <TIMESTAMP>''))]),
             (KStr (py ''accessory''), PDict [(KStr (py ''url''), PStr (py ''<WEB_LINK>''))])],
      text_block (py ''<EXPLANATION>''), text_block (py ''<RECOMMENDATION>''),
      text_block (py ''<INSTRUCT>'')]"

definition example_finding :: "pystr \<Rightarrow> pystr \<Rightarrow> pystr \<Rightarrow> pyval" where
  "example_finding name cat sev = PDict
     [(KStr (py ''name''), PStr name),
      (KStr (py ''category''), PStr cat),
      (KStr (py ''severity''), PStr sev),
      (KStr (py ''state''), PStr (py ''ACTIVE'')),
      (KStr (py ''createTime''), PStr (py ''2021-05-01'')),
      (KStr (py ''sourceProperties''), PDict
         [(KStr (py ''Explanation''), PStr (py ''Port 22 is open.'')),
          (KStr (py ''Recommendation''), PStr (py ''Close it.'')),
          (KStr (py ''ExceptionInstructions''), PStr (py ''Add a mark.''))])]"

definition example_payload :: "pyval \<Rightarrow> pyval" where
  "example_payload finding = PDict
     [(KStr (py ''finding''), finding),
      (KStr (py ''resource''), PDict [(KStr (py ''projectDisplayName''), PStr (py ''demo''))])]"

abbreviation example_name :: pystr where
  "example_name \<equiv> py ''organizations/12/sources/34/findings/ab''"

subsection \<open>Inversion, read-after-write and frame lemmas\<close>

lemma replace_chain_PStr_Cons:
  "replace_chain (PStr s) ((old, r) # rs) = Inr y \<longleftrightarrow>
   (\<exists>n. r = Inr (PStr n) \<and> replace_chain (PStr (str_replace old n s)) rs = Inr y)"
  by (cases r) (auto simp: py_replace_def res_bind_eq_Inr split: pyval.splits)

lemma replace_chain_not_str:
  "(\<forall>s. x \<noteq> PStr s) \<Longrightarrow> rs \<noteq> [] \<Longrightarrow> replace_chain x rs = Inl AttributeError"
  by (cases rs) (auto split: pyval.splits)

lemma subst_field_InrE:
  assumes "subst_field d p rs = Inr d'"
  obtains x y where "py_get_path d p = Inr x" "replace_chain x rs = Inr y"
    "py_set_path d p y = Inr d'"
  using assms by (auto simp: subst_field_def res_bind_eq_Inr)

lemma subst_field_same:
  assumes "subst_field d p rs = Inr d'" and "p \<noteq> []"
  obtains x y where "py_get_path d p = Inr x" "replace_chain x rs = Inr y"
    "py_get_path d' p = Inr y"
  using assms by (auto elim!: subst_field_InrE dest: get_set_path_same)

lemma subst_field_frame:
  assumes "subst_field d p rs = Inr d'" "paths_diverge p q"
    "list_all key_nonneg p" "list_all key_nonneg q"
  shows "py_get_path d' q = py_get_path d q"
  using assms by (auto elim!: subst_field_InrE intro: get_set_path_other)

lemma template_paths:
  "paths_diverge (text_path i) (text_path j) \<longleftrightarrow> i \<noteq> j"
  "paths_diverge (text_path i) url_path"
  "paths_diverge url_path (text_path i)"
  "0 \<le> i \<Longrightarrow> list_all key_nonneg (text_path i)"
  "list_all key_nonneg url_path"
  "text_path i \<noteq> []" "url_path \<noteq> []"
  by (auto simp: text_path_def url_path_def)

lemma merge_template_InrE:
  assumes "merge_template t p = Inr t'"
  obtains fi where "merge_fields p = Inr fi" "fill_blocks t fi = Inr t'"
  using assms by (auto simp: merge_template_def res_bind_eq_Inr)

lemma fill_blocks_InrE:
  assumes "fill_blocks t fi = Inr t'"
  obtains d0 d1 d2 d3 d4 e r i where
    "subst_field t (text_path 0)
        [(py ''<SUBJECT>'', py_get (fi_finding fi) (py ''category'')),
         (py ''<WEB_LINK>'', Inr (PStr (scc_finding_url (fi_org fi) (fi_src fi) (fi_fid fi))))] = Inr d0"
    "subst_field d0 (text_path 1)
        [(py ''<PROJECT_ID>'',
          res_bind (py_get (fi_resource fi) (py ''projectDisplayName'')) (\<lambda>v. Inr (PStr (py_str v)))),
         (py ''<SEVERITY>'', Inr (fi_severity fi)),
         (py ''<SEV_EMO>'', Inr (PStr (fi_emo fi))),
         (py ''<STATE>'', py_get (fi_finding fi) (py ''state'')),
         (py ''<TIMESTAMP>'', py_get (fi_finding fi) (py ''createTime''))] = Inr d1"
    "subst_field d1 url_path
        [(py ''<WEB_LINK>'', Inr (PStr (scc_finding_url (fi_org fi) (fi_src fi) (fi_fid fi))))] = Inr d2"
    "py_get (fi_props fi) (py ''Explanation'') = Inr e"
    "subst_field d2 (text_path 2)
        [(py ''<EXPLANATION>'', Inr (PStr (format_text (json_dumps e) False)))] = Inr d3"
    "py_get (fi_props fi) (py ''Recommendation'') = Inr r"
    "subst_field d3 (text_path 3)
        [(py ''<RECOMMENDATION>'', Inr (PStr (format_text (json_dumps r) False)))] = Inr d4"
    "py_get (fi_props fi) (py ''ExceptionInstructions'') = Inr i"
    "subst_field d4 (text_path 4)
        [(py ''<INSTRUCT>'', Inr (PStr (format_text (json_dumps i) True)))] = Inr t'"
  using assms unfolding fill_blocks_def Let_def by (auto simp: res_bind_eq_Inr)

lemma replace_chain_str_arg:
  assumes "replace_chain x rs = Inr y" and "rs \<noteq> []"
  obtains s where "x = PStr s"
  using assms replace_chain_not_str by (cases x) auto

lemma fill_blocks_text1:
  assumes "fill_blocks t fi = Inr t'"
  obtains s n1 n2 n4 n5 where
    "py_get_path t (text_path 1) = Inr (PStr s)"
    "res_bind (py_get (fi_resource fi) (py ''projectDisplayName'')) (\<lambda>v. Inr (PStr (py_str v)))
       = Inr (PStr n1)"
    "fi_severity fi = PStr n2"
    "py_get (fi_finding fi) (py ''state'') = Inr (PStr n4)"
    "py_get (fi_finding fi) (py ''createTime'') = Inr (PStr n5)"
    "py_get_path t' (text_path 1) =
       Inr (PStr (str_replace (py ''<TIMESTAMP>'') n5 (str_replace (py ''<STATE>'') n4
         (str_replace (py ''<SEV_EMO>'') (fi_emo fi) (str_replace (py ''<SEVERITY>'') n2
           (str_replace (py ''<PROJECT_ID>'') n1 s))))))"
proof -
  from assms obtain d0 d1 d2 d3 d4 e r i where
    s0: "subst_field t (text_path 0)
        [(py ''<SUBJECT>'', py_get (fi_finding fi) (py ''category'')),
         (py ''<WEB_LINK>'', Inr (PStr (scc_finding_url (fi_org fi) (fi_src fi) (fi_fid fi))))] = Inr d0"
    and s1: "subst_field d0 (text_path 1)
        [(py ''<PROJECT_ID>'',
          res_bind (py_get (fi_resource fi) (py ''projectDisplayName'')) (\<lambda>v. Inr (PStr (py_str v)))),
         (py ''<SEVERITY>'', Inr (fi_severity fi)),
         (py ''<SEV_EMO>'', Inr (PStr (fi_emo fi))),
         (py ''<STATE>'', py_get (fi_finding fi) (py ''state'')),
         (py ''<TIMESTAMP>'', py_get (fi_finding fi) (py ''createTime''))] = Inr d1"
    and s2: "subst_field d1 url_path
        [(py ''<WEB_LINK>'', Inr (PStr (scc_finding_url (fi_org fi) (fi_src fi) (fi_fid fi))))] = Inr d2"
    and s3: "subst_field d2 (text_path 2)
        [(py ''<EXPLANATION>'', Inr (PStr (format_text (json_dumps e) False)))] = Inr d3"
    and s4: "subst_field d3 (text_path 3)
        [(py ''<RECOMMENDATION>'', Inr (PStr (format_text (json_dumps r) False)))] = Inr d4"
    and s5: "subst_field d4 (text_path 4)
        [(py ''<INSTRUCT>'', Inr (PStr (format_text (json_dumps i) True)))] = Inr t'"
    by (rule fill_blocks_InrE)
  have f0: "py_get_path d0 (text_path 1) = py_get_path t (text_path 1)"
    using s0 by (rule subst_field_frame) (simp_all add: template_paths)
  have "py_get_path t' (text_path 1) = py_get_path d4 (text_path 1)"
    using s5 by (rule subst_field_frame) (simp_all add: template_paths)
  also have "\<dots> = py_get_path d3 (text_path 1)"
    using s4 by (rule subst_field_frame) (simp_all add: template_paths)
  also have "\<dots> = py_get_path d2 (text_path 1)"
    using s3 by (rule subst_field_frame) (simp_all add: template_paths)
  also have "\<dots> = py_get_path d1 (text_path 1)"
    using s2 by (rule subst_field_frame) (simp_all add: template_paths)
  finally have f1: "py_get_path t' (text_path 1) = py_get_path d1 (text_path 1)" .
  from s1 obtain x y where x: "py_get_path d0 (text_path 1) = Inr x"
    and xy: "replace_chain x
        [(py ''<PROJECT_ID>'',
          res_bind (py_get (fi_resource fi) (py ''projectDisplayName'')) (\<lambda>v. Inr (PStr (py_str v)))),
         (py ''<SEVERITY>'', Inr (fi_severity fi)),
         (py ''<SEV_EMO>'', Inr (PStr (fi_emo fi))),
         (py ''<STATE>'', py_get (fi_finding fi) (py ''state'')),
         (py ''<TIMESTAMP>'', py_get (fi_finding fi) (py ''createTime''))] = Inr y"
    and y: "py_get_path d1 (text_path 1) = Inr y"
    by (rule subst_field_same) (simp add: template_paths)
  from xy obtain s where xs: "x = PStr s" by (rule replace_chain_str_arg) simp
  from xy xs obtain n1 n2 n4 n5 where
    n1: "res_bind (py_get (fi_resource fi) (py ''projectDisplayName'')) (\<lambda>v. Inr (PStr (py_str v)))
       = Inr (PStr n1)"
    and n2: "fi_severity fi = PStr n2"
    and n4: "py_get (fi_finding fi) (py ''state'') = Inr (PStr n4)"
    and n5: "py_get (fi_finding fi) (py ''createTime'') = Inr (PStr n5)"
    and yv: "y = PStr (str_replace (py ''<TIMESTAMP>'') n5 (str_replace (py ''<STATE>'') n4
         (str_replace (py ''<SEV_EMO>'') (fi_emo fi) (str_replace (py ''<SEVERITY>'') n2
           (str_replace (py ''<PROJECT_ID>'') n1 s)))))"
    by (auto simp: replace_chain_PStr_Cons simp del: replace_chain.simps(2))
  show ?thesis
    by (rule that [OF _ n1 n2 n4 n5]) (use f0 f1 x y xs yv in simp_all)
qed

lemma fill_blocks_prefix:
  assumes "fill_blocks t fi = Inr t'"
  obtains d0 d1 d2 where
    "subst_field t (text_path 0)
        [(py ''<SUBJECT>'', py_get (fi_finding fi) (py ''category'')),
         (py ''<WEB_LINK>'', Inr (PStr (scc_finding_url (fi_org fi) (fi_src fi) (fi_fid fi))))] = Inr d0"
    "subst_field d1 url_path
        [(py ''<WEB_LINK>'', Inr (PStr (scc_finding_url (fi_org fi) (fi_src fi) (fi_fid fi))))] = Inr d2"
    "py_get_path d1 (text_path 0) = py_get_path d0 (text_path 0)"
    "py_get_path d1 url_path = py_get_path d0 url_path"
    "py_get_path t' (text_path 0) = py_get_path d2 (text_path 0)"
    "py_get_path t' url_path = py_get_path d2 url_path"
proof -
  from assms obtain d0 d1 d2 d3 d4 e r i where
    s0: "subst_field t (text_path 0)
        [(py ''<SUBJECT>'', py_get (fi_finding fi) (py ''category'')),
         (py ''<WEB_LINK>'', Inr (PStr (scc_finding_url (fi_org fi) (fi_src fi) (fi_fid fi))))] = Inr d0"
    and s1: "subst_field d0 (text_path 1)
        [(py ''<PROJECT_ID>'',
          res_bind (py_get (fi_resource fi) (py ''projectDisplayName'')) (\<lambda>v. Inr (PStr (py_str v)))),
         (py ''<SEVERITY>'', Inr (fi_severity fi)),
         (py ''<SEV_EMO>'', Inr (PStr (fi_emo fi))),
         (py ''<STATE>'', py_get (fi_finding fi) (py ''state'')),
         (py ''<TIMESTAMP>'', py_get (fi_finding fi) (py ''createTime''))] = Inr d1"
    and s2: "subst_field d1 url_path
        [(py ''<WEB_LINK>'', Inr (PStr (scc_finding_url (fi_org fi) (fi_src fi) (fi_fid fi))))] = Inr d2"
    and s3: "subst_field d2 (text_path 2)
        [(py ''<EXPLANATION>'', Inr (PStr (format_text (json_dumps e) False)))] = Inr d3"
    and s4: "subst_field d3 (text_path 3)
        [(py ''<RECOMMENDATION>'', Inr (PStr (format_text (json_dumps r) False)))] = Inr d4"
    and s5: "subst_field d4 (text_path 4)
        [(py ''<INSTRUCT>'', Inr (PStr (format_text (json_dumps i) True)))] = Inr t'"
    by (rule fill_blocks_InrE)
  have f0: "py_get_path d1 (text_path 0) = py_get_path d0 (text_path 0)"
    using s1 by (rule subst_field_frame) (simp_all add: template_paths)
  have fu: "py_get_path d1 url_path = py_get_path d0 url_path"
    using s1 by (rule subst_field_frame) (simp_all add: template_paths)
  have ft: "py_get_path t' q = py_get_path d2 q"
    if "paths_diverge (text_path 2) q" "paths_diverge (text_path 3) q"
       "paths_diverge (text_path 4) q" "list_all key_nonneg q" for q
  proof -
    have "py_get_path t' q = py_get_path d4 q"
      by (rule subst_field_frame [OF s5]) (use that in \<open>simp_all add: template_paths\<close>)
    also have "\<dots> = py_get_path d3 q"
      by (rule subst_field_frame [OF s4]) (use that in \<open>simp_all add: template_paths\<close>)
    also have "\<dots> = py_get_path d2 q"
      by (rule subst_field_frame [OF s3]) (use that in \<open>simp_all add: template_paths\<close>)
    finally show ?thesis .
  qed
  show ?thesis
    by (rule that [OF s0 s2 f0 fu]) (rule ft; simp add: template_paths)+
qed

lemma fill_blocks_text0:
  assumes "fill_blocks t fi = Inr t'"
  obtains s cat where
    "py_get_path t (text_path 0) = Inr (PStr s)"
    "py_get (fi_finding fi) (py ''category'') = Inr (PStr cat)"
    "py_get_path t' (text_path 0) =
       Inr (PStr (str_replace (py ''<WEB_LINK>'') (scc_finding_url (fi_org fi) (fi_src fi) (fi_fid fi))
         (str_replace (py ''<SUBJECT>'') cat s)))"
proof -
  from assms obtain d0 d1 d2 where
    s0: "subst_field t (text_path 0)
        [(py ''<SUBJECT>'', py_get (fi_finding fi) (py ''category'')),
         (py ''<WEB_LINK>'', Inr (PStr (scc_finding_url (fi_org fi) (fi_src fi) (fi_fid fi))))] = Inr d0"
    and s2: "subst_field d1 url_path
        [(py ''<WEB_LINK>'', Inr (PStr (scc_finding_url (fi_org fi) (fi_src fi) (fi_fid fi))))] = Inr d2"
    and f0: "py_get_path d1 (text_path 0) = py_get_path d0 (text_path 0)"
    and fu: "py_get_path d1 url_path = py_get_path d0 url_path"
    and g0: "py_get_path t' (text_path 0) = py_get_path d2 (text_path 0)"
    and gu: "py_get_path t' url_path = py_get_path d2 url_path"
    by (rule fill_blocks_prefix)
  have "py_get_path t' (text_path 0) = py_get_path d2 (text_path 0)"
    by (rule g0)
  also have "\<dots> = py_get_path d1 (text_path 0)"
    using s2 by (rule subst_field_frame) (simp_all add: template_paths)
  finally have g: "py_get_path t' (text_path 0) = py_get_path d0 (text_path 0)"
    using f0 by simp
  from s0 obtain x y where x: "py_get_path t (text_path 0) = Inr x"
    and xy: "replace_chain x
        [(py ''<SUBJECT>'', py_get (fi_finding fi) (py ''category'')),
         (py ''<WEB_LINK>'', Inr (PStr (scc_finding_url (fi_org fi) (fi_src fi) (fi_fid fi))))] = Inr y"
    and y: "py_get_path d0 (text_path 0) = Inr y"
    by (rule subst_field_same) (simp add: template_paths)
  from xy obtain s where xs: "x = PStr s" by (rule replace_chain_str_arg) simp
  from xy xs obtain cat where
    c: "py_get (fi_finding fi) (py ''category'') = Inr (PStr cat)"
    and yv: "y = PStr (str_replace (py ''<WEB_LINK>'') (scc_finding_url (fi_org fi) (fi_src fi) (fi_fid fi))
         (str_replace (py ''<SUBJECT>'') cat s))"
    by (auto simp: replace_chain_PStr_Cons simp del: replace_chain.simps(2))
  show ?thesis
    by (rule that [OF _ c]) (use g x y xs yv in simp_all)
qed

lemma fill_blocks_url:
  assumes "fill_blocks t fi = Inr t'"
  obtains u where
    "py_get_path t url_path = Inr (PStr u)"
    "py_get_path t' url_path =
       Inr (PStr (str_replace (py ''<WEB_LINK>'') (scc_finding_url (fi_org fi) (fi_src fi) (fi_fid fi)) u))"
proof -
  from assms obtain d0 d1 d2 where
    s0: "subst_field t (text_path 0)
        [(py ''<SUBJECT>'', py_get (fi_finding fi) (py ''category'')),
         (py ''<WEB_LINK>'', Inr (PStr (scc_finding_url (fi_org fi) (fi_src fi) (fi_fid fi))))] = Inr d0"
    and s2: "subst_field d1 url_path
        [(py ''<WEB_LINK>'', Inr (PStr (scc_finding_url (fi_org fi) (fi_src fi) (fi_fid fi))))] = Inr d2"
    and f0: "py_get_path d1 (text_path 0) = py_get_path d0 (text_path 0)"
    and fu: "py_get_path d1 url_path = py_get_path d0 url_path"
    and g0: "py_get_path t' (text_path 0) = py_get_path d2 (text_path 0)"
    and gu: "py_get_path t' url_path = py_get_path d2 url_path"
    by (rule fill_blocks_prefix)
  have g: "py_get_path t' url_path = py_get_path d2 url_path"
    by (rule gu)
  have h: "py_get_path d0 url_path = py_get_path t url_path"
    using s0 by (rule subst_field_frame) (simp_all add: template_paths)
  from s2 obtain x y where x: "py_get_path d1 url_path = Inr x"
    and xy: "replace_chain x
        [(py ''<WEB_LINK>'', Inr (PStr (scc_finding_url (fi_org fi) (fi_src fi) (fi_fid fi))))] = Inr y"
    and y: "py_get_path d2 url_path = Inr y"
    by (rule subst_field_same) (simp add: template_paths)
  from xy obtain u where xs: "x = PStr u" by (rule replace_chain_str_arg) simp
  show ?thesis
    by (rule that [of u]) (use g h fu x y xs xy in \<open>simp_all add: py_replace_def\<close>)
qed

lemma merge_fields_InrE:
  assumes "merge_fields p = Inr fi"
  obtains name where
    "py_get p (py ''finding'') = Inr (fi_finding fi)"
    "py_get p (py ''resource'') = Inr (fi_resource fi)"
    "py_get (fi_finding fi) (py ''sourceProperties'') = Inr (fi_props fi)"
    "py_get (fi_finding fi) (py ''name'') = Inr name"
    "parse_finding_name name = Inr (fi_org fi, fi_fid fi, fi_src fi)"
    "py_get (fi_finding fi) (py ''severity'') = Inr (fi_severity fi)"
    "sev_marker (fi_severity fi) = Inr (fi_emo fi)"
  using assms by (auto simp: merge_fields_def res_bind_eq_Inr split: prod.splits)

lemma py_get_dict: "py_get x k = Inr v \<Longrightarrow> \<exists>kvs. x = PDict kvs"
  by (cases x) (auto simp: py_get_def)

lemma py_get_dict_Inr: "py_get (PDict kvs) k = Inr (case map_of kvs (KStr k) of None \<Rightarrow> PNone | Some v \<Rightarrow> v)"
  by (simp add: py_get_def)

lemma sev_marker_str: "sev_marker (PStr s) = Inr (if sublist (py ''HIGH'') s then py '':warning:'' else [])"
  by (simp add: sev_marker_def)

lemma marker_survives:
  assumes "is_placeholder u" "58 \<notin> set u" "sublist (py '':warning:'') x"
  shows "sublist (py '':warning:'') (str_replace u n x)"
proof -
  from assms(1) obtain m where u: "u = 60 # m @ [62]" by (auto simp: is_placeholder_iff)
  have "sublist (58 # py ''warning:'') (str_replace (60 # (m @ [62])) n x)"
    by (rule str_replace_keeps_sublist) (use assms u in auto)
  then show ?thesis using u by simp
qed

lemma in_set_str_replace_Cons:
  "c \<in> set (str_replace (p # ps) n x) \<Longrightarrow> c \<in> set x \<or> c \<in> set n"
  using set_str_replace [of "p # ps" n x] by blast

lemma str_split_aux_count:
  "length (str_split_aux [c] cur s) = count_list s c + 1"
  by (induction s arbitrary: cur) auto

lemma parse_finding_name_path:
  assumes "47 \<notin> set org" "47 \<notin> set src" "47 \<notin> set fid"
  shows "parse_finding_name
           (PStr (py ''organizations/'' @ org @ py ''/sources/'' @ src @ py ''/findings/'' @ fid))
         = Inr (org, fid, src)"
proof -
  have "str_split_aux [47] []
          (py ''organizations/'' @ org @ py ''/sources/'' @ src @ py ''/findings/'' @ fid)
        = [py ''organizations'', org, py ''sources'', src, py ''findings'', fid]"
    using assms by (simp add: str_split_aux_sep str_split_aux_free)
  then show ?thesis
    by (simp add: parse_finding_name_def py_split_def str_split_def py_index_def)
qed

lemma parse_finding_name_short:
  "count_list n 47 < 3 \<Longrightarrow> parse_finding_name (PStr n) = Inl IndexError"
  using str_split_aux_count [of 47 "[]" n]
  by (auto simp: parse_finding_name_def py_split_def str_split_def py_index_def Let_def
           res_bind_def split: sum.splits)

lemma parse_finding_name_not_str:
  "(\<forall>s. name \<noteq> PStr s) \<Longrightarrow> parse_finding_name name = Inl AttributeError"
  by (cases name) (auto simp: parse_finding_name_def py_split_def)

lemma scc_finding_url_path:
  "sublist (py ''organizations/'' @ org @ py ''/sources/'' @ src @ py ''/findings/'' @ fid)
           (scc_finding_url org src fid)"
  unfolding sublist_def scc_finding_url_def
  by (rule exI [of _ "py ''https://console.cloud.google.com/security/command-center/findings?''"],
      rule exI [of _ "py ''=,true&orgonly=true&organizationId='' @ org @
         py ''&supportedpurview=organizationId&view_type=vt_finding_type&vt_finding_type=All''
         @ py ''&resourceId=organizations/'' @ org @ py ''/sources/'' @ src @ py ''/findings/'' @ fid"])
     simp

lemmas example_defs = example_template_def example_payload_def example_finding_def text_block_def

lemmas merge_eval = merge_template_def merge_fields_def fill_blocks_def parse_finding_name_def
  sev_marker_def subst_field_def text_path_def url_path_def py_get_def str_split_def py_split_def
  py_index_def py_replace_def scc_finding_url_def format_text_def py_str_def Let_def dict_set_def
  json_str_def json_escape_char_def

lemma Inr_of_not_isl: "\<not> isl x \<Longrightarrow> \<exists>y. x = Inr y"
  by (cases x) auto

subsection \<open>Properties of merge_template\<close>

text \<open>
  C1: when the finding's severity contains \<open>HIGH\<close> and the template's second
  block has the \<open><SEV_EMO>\<close> placeholder, a successful merge puts the warning
  marker \<open>:warning:\<close> into the text of that block. The two placeholders substituted
  before it cannot break \<open><SEV_EMO>\<close> and the two after it cannot break the marker.
\<close>

theorem merge_warning_marker:
  assumes ok: "merge_template t p = Inr t'"
    and f: "py_get p (py ''finding'') = Inr f"
    and sev: "py_get f (py ''severity'') = Inr (PStr sev)"
    and high: "sublist (py ''HIGH'') sev"
    and tmpl: "py_get_path t (text_path 1) = Inr (PStr s)"
    and emo: "sublist (py ''<SEV_EMO>'') s"
  shows "\<exists>s'. py_get_path t' (text_path 1) = Inr (PStr s') \<and> sublist (py '':warning:'') s'"
proof -
  obtain fi where mf: "merge_fields p = Inr fi" and fb: "fill_blocks t fi = Inr t'"
    using ok by (rule merge_template_InrE)
  from mf f sev have fi: "fi_finding fi = f" "fi_severity fi = PStr sev"
    by (auto elim: merge_fields_InrE)
  with mf high have e: "fi_emo fi = py '':warning:''"
    by (auto elim!: merge_fields_InrE simp: sev_marker_str)
  from fb obtain s0 n1 n2 n4 n5 where
    "py_get_path t (text_path 1) = Inr (PStr s0)" and "fi_severity fi = PStr n2" and
    r: "py_get_path t' (text_path 1) =
       Inr (PStr (str_replace (py ''<TIMESTAMP>'') n5 (str_replace (py ''<STATE>'') n4
         (str_replace (py ''<SEV_EMO>'') (fi_emo fi) (str_replace (py ''<SEVERITY>'') n2
           (str_replace (py ''<PROJECT_ID>'') n1 s0))))))"
    by (rule fill_blocks_text1)
  with tmpl have s0: "s0 = s" by simp
  have a2: "sublist (py ''<SEV_EMO>'') (str_replace (py ''<SEVERITY>'') n2 (str_replace (py ''<PROJECT_ID>'') n1 s))"
    by (intro placeholder_survives emo) (simp_all add: is_placeholder_def)
  have a3: "sublist (py '':warning:'')
      (str_replace (py ''<SEV_EMO>'') (py '':warning:'') (str_replace (py ''<SEVERITY>'') n2 (str_replace (py ''<PROJECT_ID>'') n1 s)))"
    using str_replace_inserts [OF a2 [simplified]] by simp
  have a5: "sublist (py '':warning:'') (str_replace (py ''<TIMESTAMP>'') n5 (str_replace (py ''<STATE>'') n4
      (str_replace (py ''<SEV_EMO>'') (py '':warning:'') (str_replace (py ''<SEVERITY>'') n2 (str_replace (py ''<PROJECT_ID>'') n1 s)))))"
    by (intro marker_survives a3) (simp_all add: is_placeholder_def)
  from r s0 e a5 show ?thesis by simp
qed

theorem merge_warning_marker_witness:
  "\<exists>t'. merge_template example_template
          (example_payload (example_finding example_name (py ''OPEN_FIREWALL'') (py ''HIGH''))) = Inr t' \<and>
        (\<exists>s'. py_get_path t' (text_path 1) = Inr (PStr s') \<and> sublist (py '':warning:'') s')"
proof -
  have "\<not> isl (merge_template example_template
          (example_payload (example_finding example_name (py ''OPEN_FIREWALL'') (py ''HIGH''))))"
    by (simp add: example_defs merge_eval)
  then obtain t' where ok: "merge_template example_template
          (example_payload (example_finding example_name (py ''OPEN_FIREWALL'') (py ''HIGH''))) = Inr t'"
    using Inr_of_not_isl by blast
  have "\<exists>s'. py_get_path t' (text_path 1) = Inr (PStr s') \<and> sublist (py '':warning:'') s'"
    by (rule merge_warning_marker [OF ok,
          where f = "example_finding example_name (py ''OPEN_FIREWALL'') (py ''HIGH'')"
            and sev = "py ''HIGH''"
            and s = "py ''<PROJECT_ID> <SEVERITY><SEV_EMO> <STATE> <TIMESTAMP>''"])
       (simp_all add: example_defs py_get_def text_path_def py_index_def sublist_code)
  with ok show ?thesis by blast
qed

text \<open>
  C2: when the severity does not contain \<open>HIGH\<close>, the marker is the empty string,
  so the second block's text holds \<open>:warning:\<close> only if the template or one of the
  substituted fields brought its characters: if none of them has a \<open>w\<close>, the text
  has no marker.
\<close>

theorem merge_no_warning_marker:
  assumes ok: "merge_template t p = Inr t'"
    and f: "py_get p (py ''finding'') = Inr f"
    and sev: "py_get f (py ''severity'') = Inr (PStr sev)"
    and low: "\<not> sublist (py ''HIGH'') sev"
    and tmpl: "py_get_path t (text_path 1) = Inr (PStr s)"
    and res: "py_get p (py ''resource'') = Inr r"
    and proj: "py_get r (py ''projectDisplayName'') = Inr pr"
    and st: "py_get f (py ''state'') = Inr (PStr st)"
    and ct: "py_get f (py ''createTime'') = Inr (PStr ct)"
    and no_w: "119 \<notin> set s \<union> set (py_str pr) \<union> set sev \<union> set st \<union> set ct"
  shows "\<exists>s'. py_get_path t' (text_path 1) = Inr (PStr s') \<and> \<not> sublist (py '':warning:'') s'"
proof -
  obtain fi where mf: "merge_fields p = Inr fi" and fb: "fill_blocks t fi = Inr t'"
    using ok by (rule merge_template_InrE)
  from mf f sev res have fi: "fi_finding fi = f" "fi_severity fi = PStr sev" "fi_resource fi = r"
    by (auto elim: merge_fields_InrE)
  with mf low have e: "fi_emo fi = []"
    by (auto elim!: merge_fields_InrE simp: sev_marker_str)
  from fb obtain s0 n1 n2 n4 n5 where
    "py_get_path t (text_path 1) = Inr (PStr s0)" and
    n1: "res_bind (py_get (fi_resource fi) (py ''projectDisplayName'')) (\<lambda>v. Inr (PStr (py_str v)))
       = Inr (PStr n1)" and
    n2: "fi_severity fi = PStr n2" and
    n4: "py_get (fi_finding fi) (py ''state'') = Inr (PStr n4)" and
    n5: "py_get (fi_finding fi) (py ''createTime'') = Inr (PStr n5)" and
    r: "py_get_path t' (text_path 1) =
       Inr (PStr (str_replace (py ''<TIMESTAMP>'') n5 (str_replace (py ''<STATE>'') n4
         (str_replace (py ''<SEV_EMO>'') (fi_emo fi) (str_replace (py ''<SEVERITY>'') n2
           (str_replace (py ''<PROJECT_ID>'') n1 s0))))))"
    by (rule fill_blocks_text1)
  with tmpl fi proj st ct have v: "s0 = s" "n1 = py_str pr" "n2 = sev" "n4 = st" "n5 = ct"
    by auto
  let ?s' = "str_replace (py ''<TIMESTAMP>'') ct (str_replace (py ''<STATE>'') st
         (str_replace (py ''<SEV_EMO>'') [] (str_replace (py ''<SEVERITY>'') sev
           (str_replace (py ''<PROJECT_ID>'') (py_str pr) s))))"
  have "119 \<notin> set ?s'"
  proof
    assume "119 \<in> set ?s'"
    with no_w show False by (auto dest!: in_set_str_replace_Cons)
  qed
  then have "\<not> sublist (py '':warning:'') ?s'"
    by (intro not_sublist_if_notin [of 119]) simp_all
  with r v e show ?thesis by simp
qed

theorem merge_no_warning_marker_witness:
  "\<exists>t'. merge_template example_template
          (example_payload (example_finding example_name (py ''OPEN_FIREWALL'') (py ''LOW''))) = Inr t' \<and>
        (\<exists>s'. py_get_path t' (text_path 1) = Inr (PStr s') \<and> \<not> sublist (py '':warning:'') s')"
proof -
  have "\<not> isl (merge_template example_template
          (example_payload (example_finding example_name (py ''OPEN_FIREWALL'') (py ''LOW''))))"
    by (simp add: example_defs merge_eval)
  then obtain t' where ok: "merge_template example_template
          (example_payload (example_finding example_name (py ''OPEN_FIREWALL'') (py ''LOW''))) = Inr t'"
    using Inr_of_not_isl by blast
  have "\<exists>s'. py_get_path t' (text_path 1) = Inr (PStr s') \<and> \<not> sublist (py '':warning:'') s'"
    by (rule merge_no_warning_marker [OF ok,
          where f = "example_finding example_name (py ''OPEN_FIREWALL'') (py ''LOW'')"
            and sev = "py ''LOW''"
            and s = "py ''<PROJECT_ID> <SEVERITY><SEV_EMO> <STATE> <TIMESTAMP>''"
            and r = "PDict [(KStr (py ''projectDisplayName''), PStr (py ''demo''))]"
            and pr = "PStr (py ''demo'')" and st = "py ''ACTIVE''" and ct = "py ''2021-05-01''"])
       (simp_all add: example_defs py_get_def text_path_def py_str_def py_index_def sublist_code)
  with ok show ?thesis by blast
qed

text \<open>
  C3: for a finding named \<open>organizations/ORG/sources/SRC/findings/FID\<close>, a
  successful merge puts the console deep link built from exactly these three ids into the
  button URL of the second block (when the template's URL is the \<open><WEB_LINK>\<close>
  placeholder), and the link contains the finding's resource path.
\<close>

theorem merge_deep_link:
  assumes ok: "merge_template t p = Inr t'"
    and f: "py_get p (py ''finding'') = Inr f"
    and name: "py_get f (py ''name'') =
      Inr (PStr (py ''organizations/'' @ org @ py ''/sources/'' @ src @ py ''/findings/'' @ fid))"
    and ids: "47 \<notin> set org" "47 \<notin> set src" "47 \<notin> set fid"
    and tmpl: "py_get_path t url_path = Inr (PStr (py ''<WEB_LINK>''))"
  shows "py_get_path t' url_path = Inr (PStr (scc_finding_url org src fid)) \<and>
         sublist (py ''organizations/'' @ org @ py ''/sources/'' @ src @ py ''/findings/'' @ fid)
                 (scc_finding_url org src fid)"
proof
  obtain fi where mf: "merge_fields p = Inr fi" and fb: "fill_blocks t fi = Inr t'"
    using ok by (rule merge_template_InrE)
  from mf f name have "parse_finding_name
      (PStr (py ''organizations/'' @ org @ py ''/sources/'' @ src @ py ''/findings/'' @ fid))
      = Inr (fi_org fi, fi_fid fi, fi_src fi)"
    by (auto elim: merge_fields_InrE)
  with parse_finding_name_path [OF ids] have i: "fi_org fi = org" "fi_fid fi = fid" "fi_src fi = src"
    by simp_all
  from fb obtain u where "py_get_path t url_path = Inr (PStr u)"
    and r: "py_get_path t' url_path =
       Inr (PStr (str_replace (py ''<WEB_LINK>'') (scc_finding_url (fi_org fi) (fi_src fi) (fi_fid fi)) u))"
    by (rule fill_blocks_url)
  with tmpl have "u = py ''<WEB_LINK>''" by simp
  with r i show "py_get_path t' url_path = Inr (PStr (scc_finding_url org src fid))"
    by simp
  show "sublist (py ''organizations/'' @ org @ py ''/sources/'' @ src @ py ''/findings/'' @ fid)
                 (scc_finding_url org src fid)"
    by (rule scc_finding_url_path)
qed

theorem merge_deep_link_witness:
  "\<exists>t'. merge_template example_template
          (example_payload (example_finding example_name (py ''OPEN_FIREWALL'') (py ''HIGH''))) = Inr t' \<and>
        py_get_path t' url_path = Inr (PStr (scc_finding_url (py ''12'') (py ''34'') (py ''ab'')))"
proof -
  have "\<not> isl (merge_template example_template
          (example_payload (example_finding example_name (py ''OPEN_FIREWALL'') (py ''HIGH''))))"
    by (simp add: example_defs merge_eval)
  then obtain t' where ok: "merge_template example_template
          (example_payload (example_finding example_name (py ''OPEN_FIREWALL'') (py ''HIGH''))) = Inr t'"
    using Inr_of_not_isl by blast
  have "py_get_path t' url_path = Inr (PStr (scc_finding_url (py ''12'') (py ''34'') (py ''ab'')))"
    using merge_deep_link [OF ok, of _ "py ''12''" "py ''34''" "py ''ab''"]
    by (simp add: example_defs py_get_def url_path_def py_index_def)
  with ok show ?thesis by blast
qed

text \<open>
  C17: a finding without \<open>sourceProperties\<close> or without \<open>name\<close> makes
  \<open>merge_template\<close> raise: the message is never filled for it.
\<close>

theorem merge_needs_props_and_name:
  assumes f: "py_get p (py ''finding'') = Inr f"
    and missing: "py_get f (py ''sourceProperties'') = Inr PNone \<or> py_get f (py ''name'') = Inr PNone"
  shows "\<exists>e. merge_template t p = Inl e"
proof (cases "merge_template t p")
  case (Inr t')
  then obtain fi where mf: "merge_fields p = Inr fi" and fb: "fill_blocks t fi = Inr t'"
    by (rule merge_template_InrE)
  from mf obtain name where
    fi: "py_get p (py ''finding'') = Inr (fi_finding fi)"
    and pr: "py_get (fi_finding fi) (py ''sourceProperties'') = Inr (fi_props fi)"
    and nm: "py_get (fi_finding fi) (py ''name'') = Inr name"
    and pa: "parse_finding_name name = Inr (fi_org fi, fi_fid fi, fi_src fi)"
    by (rule merge_fields_InrE)
  from fi f have ff: "fi_finding fi = f" by simp
  from fb obtain e where "py_get (fi_props fi) (py ''Explanation'') = Inr e"
    by (rule fill_blocks_InrE)
  then have "fi_props fi \<noteq> PNone" by (auto simp: py_get_def)
  moreover have "name \<noteq> PNone" using pa by (auto simp: parse_finding_name_not_str)
  ultimately show ?thesis using missing pr nm ff by auto
qed simp

theorem merge_needs_props_and_name_witness:
  "py_get (example_payload (PDict [(KStr (py ''name''), PStr example_name)])) (py ''finding'')
     = Inr (PDict [(KStr (py ''name''), PStr example_name)]) \<and>
   py_get (PDict [(KStr (py ''name''), PStr example_name)]) (py ''sourceProperties'') = Inr PNone \<and>
   (\<exists>e. merge_template example_template
          (example_payload (PDict [(KStr (py ''name''), PStr example_name)])) = Inl e)"
  using merge_needs_props_and_name [of "example_payload (PDict [(KStr (py ''name''), PStr example_name)])"
      "PDict [(KStr (py ''name''), PStr example_name)]" example_template]
  by (simp add: example_payload_def py_get_def)

text \<open>
  C18: a finding name with fewer than three slashes has fewer than four path segments,
  and \<open>merge_template\<close> raises \<open>IndexError\<close> (at \<open>split("/")[1]\<close> or
  \<open>[3]\<close>).
\<close>

theorem merge_short_name:
  assumes f: "py_get p (py ''finding'') = Inr f"
    and name: "py_get f (py ''name'') = Inr (PStr n)"
    and short: "count_list n 47 < 3"
  shows "merge_template t p = Inl IndexError"
proof -
  obtain kvs where p: "p = PDict kvs" using py_get_dict [OF f] by blast
  obtain fkvs where fd: "f = PDict fkvs" using py_get_dict [OF name] by blast
  have "merge_fields p = Inl IndexError"
    using f name parse_finding_name_short [OF short]
    by (simp add: merge_fields_def p fd py_get_dict_Inr)
  then show ?thesis by (simp add: merge_template_def)
qed

theorem merge_short_name_witness:
  "merge_template example_template
     (example_payload (example_finding (py ''organizations/12'') (py ''X'') (py ''HIGH''))) = Inl IndexError"
  by (rule merge_short_name [of _ "example_finding (py ''organizations/12'') (py ''X'') (py ''HIGH'')"
        "py ''organizations/12''"]) (simp_all add: example_defs py_get_def)

text \<open>
  C25: a placeholder that occurs in a finding's field is itself substituted: a
  category containing \<open><WEB_LINK>\<close> is expanded into the console URL in the first
  block, because the replacements are applied one after the other to the growing text.
\<close>

theorem merge_expands_placeholder_in_category:
  assumes ok: "merge_template t p = Inr t'"
    and f: "py_get p (py ''finding'') = Inr f"
    and cat: "py_get f (py ''category'') = Inr (PStr c)"
    and inj: "sublist (py ''<WEB_LINK>'') c"
    and tmpl: "py_get_path t (text_path 0) = Inr (PStr s)"
    and subj: "sublist (py ''<SUBJECT>'') s"
  shows "\<exists>s'. py_get_path t' (text_path 0) = Inr (PStr s') \<and>
     sublist (py ''https://console.cloud.google.com/security/command-center/findings?organizations/'') s'"
proof -
  obtain fi where mf: "merge_fields p = Inr fi" and fb: "fill_blocks t fi = Inr t'"
    using ok by (rule merge_template_InrE)
  from mf f have ff: "fi_finding fi = f" by (auto elim: merge_fields_InrE)
  from fb obtain s0 c0 where "py_get_path t (text_path 0) = Inr (PStr s0)"
    and "py_get (fi_finding fi) (py ''category'') = Inr (PStr c0)"
    and r: "py_get_path t' (text_path 0) =
       Inr (PStr (str_replace (py ''<WEB_LINK>'') (scc_finding_url (fi_org fi) (fi_src fi) (fi_fid fi))
         (str_replace (py ''<SUBJECT>'') c0 s0)))"
    by (rule fill_blocks_text0)
  with tmpl cat ff have v: "s0 = s" "c0 = c" by simp_all
  have "sublist c (str_replace (py ''<SUBJECT>'') c s)"
    using str_replace_inserts [of 60 "py ''SUBJECT>''" s c] subj by simp
  with inj have "sublist (py ''<WEB_LINK>'') (str_replace (py ''<SUBJECT>'') c s)"
    by (rule sublist_order.order_trans)
  then have "sublist (scc_finding_url (fi_org fi) (fi_src fi) (fi_fid fi))
      (str_replace (py ''<WEB_LINK>'') (scc_finding_url (fi_org fi) (fi_src fi) (fi_fid fi))
         (str_replace (py ''<SUBJECT>'') c s))"
    using str_replace_inserts [of 60 "py ''WEB_LINK>''"] by simp
  moreover have "sublist (py ''https://console.cloud.google.com/security/command-center/findings?organizations/'')
      (scc_finding_url (fi_org fi) (fi_src fi) (fi_fid fi))"
    unfolding scc_finding_url_def by (rule prefix_imp_sublist) simp
  ultimately show ?thesis using r v by (auto intro: sublist_order.order_trans)
qed

theorem merge_expands_placeholder_witness:
  "\<exists>t'. merge_template example_template
          (example_payload (example_finding example_name (py ''<WEB_LINK>'') (py ''LOW''))) = Inr t' \<and>
     (\<exists>s'. py_get_path t' (text_path 0) = Inr (PStr s') \<and>
       sublist (py ''https://console.cloud.google.com/security/command-center/findings?organizations/'') s')"
proof -
  have "\<not> isl (merge_template example_template
          (example_payload (example_finding example_name (py ''<WEB_LINK>'') (py ''LOW''))))"
    by (simp add: example_defs merge_eval)
  then obtain t' where ok: "merge_template example_template
          (example_payload (example_finding example_name (py ''<WEB_LINK>'') (py ''LOW''))) = Inr t'"
    using Inr_of_not_isl by blast
  have "\<exists>s'. py_get_path t' (text_path 0) = Inr (PStr s') \<and>
       sublist (py ''https://console.cloud.google.com/security/command-center/findings?organizations/'') s'"
    by (rule merge_expands_placeholder_in_category [OF ok,
          where f = "example_finding example_name (py ''<WEB_LINK>'') (py ''LOW'')"
            and c = "py ''<WEB_LINK>''" and s = "py ''*<SUBJECT>* <WEB_LINK>''"])
       (simp_all add: example_defs py_get_def text_path_def py_index_def sublist_code)
  with ok show ?thesis by blast
qed

end
