(* ===== verification/Base64.thy ===== *)
theory Base64
  imports Prelude
begin

text \<open>
  \<open>base64.b64decode(s)\<close> with its defaults (no \<open>altchars\<close>, \<open>validate=False\<close>), which the
  entry point applies to the Pub/Sub message data. A \<open>str\<close> argument must be ASCII
  (\<open>ValueError\<close> otherwise) and is turned into bytes; then \<open>binascii.a2b_base64\<close> in
  non-strict mode scans the bytes once with the state of the C loop: the position in the
  current quad, the bits left over from the previous character, and the count of pad
  characters seen. Characters outside the alphabet are skipped; a pad sequence that
  completes a quad ends the scan; input that ends inside a quad is \<open>binascii.Error\<close>.
  \<open>b64_encode\<close> is \<open>base64.b64encode\<close>, the standard encoding with padding. The main
  lemma is the round trip: decoding what the encoder wrote gives the bytes back.
\<close>

unbundle bit_operations_syntax

text \<open>The decoding table \<open>table_a2b_base64\<close>: 255 marks a byte outside the alphabet.\<close>

definition table_a2b_base64 :: "byte \<Rightarrow> byte" where
  "table_a2b_base64 ch =
     (let c = unat ch in
      if 65 \<le> c \<and> c \<le> 90 then of_nat (c - 65)
      else if 97 \<le> c \<and> c \<le> 122 then of_nat (c - 71)
      else if 48 \<le> c \<and> c \<le> 57 then of_nat (c + 4)
      else if c = 43 then 62
      else if c = 47 then 63
      else 255)"

text \<open>
  The loop of \<open>binascii_a2b_base64_impl\<close>, one equation per input byte. The output
  is returned in order; an error discards it, as the C code frees its buffer.
\<close>

fun a2b_loop :: "byte list \<Rightarrow> nat \<Rightarrow> byte \<Rightarrow> nat \<Rightarrow> byte list res" where
  "a2b_loop [] quad_pos leftchar pads =
     (if quad_pos = 0 then Inr [] else Inl BinasciiError)"
| "a2b_loop (ch # rest) quad_pos leftchar pads =
     (if ch = 61 then
        (if 2 \<le> quad_pos \<and> 4 \<le> quad_pos + (pads + 1) then Inr []
         else a2b_loop rest quad_pos leftchar (if 2 \<le> quad_pos then pads + 1 else pads))
      else
        (let v = table_a2b_base64 ch in
         if 64 \<le> v then a2b_loop rest quad_pos leftchar pads
         else if quad_pos = 0 then a2b_loop rest 1 v 0
         else if quad_pos = 1 then
           map_sum id ((#) (push_bit 2 leftchar OR drop_bit 4 v)) (a2b_loop rest 2 (v AND 15) 0)
         else if quad_pos = 2 then
           map_sum id ((#) (push_bit 4 leftchar OR drop_bit 2 v)) (a2b_loop rest 3 (v AND 3) 0)
         else
           map_sum id ((#) (push_bit 6 leftchar OR v)) (a2b_loop rest 0 0 0)))"

definition a2b_base64 :: "byte list \<Rightarrow> byte list res" where
  "a2b_base64 data = a2b_loop data 0 0 0"

text \<open>
  \<open>_bytes_from_decode_data\<close> and the call: a \<open>str\<close> is encoded as ASCII; the model's
  JSON values have no \<open>bytes\<close>, so any other value is the \<open>TypeError\<close> of a
  non-bytes-like argument.
\<close>

definition b64decode :: "pystr \<Rightarrow> byte list res" where
  "b64decode s =
     (if \<forall>c \<in> set s. c < 128 then a2b_base64 (map of_nat s)
      else Inl (ValueError (py ''string argument should contain only ASCII characters'')))"

text \<open>The alphabet of \<open>table_b2a_base64\<close>, as a function of the six-bit value.\<close>

definition b64_char :: "byte \<Rightarrow> nat" where
  "b64_char v =
     (let n = unat v in
      if n < 26 then n + 65 else if n < 52 then n + 71 else if n < 62 then n - 4
      else if n = 62 then 43 else 47)"

fun b64_encode :: "byte list \<Rightarrow> pystr" where
  "b64_encode (a # b # c # rest) =
     b64_char (drop_bit 2 a) # b64_char (push_bit 4 (a AND 3) OR drop_bit 4 b)
     # b64_char (push_bit 2 (b AND 15) OR drop_bit 6 c) # b64_char (c AND 63) # b64_encode rest"
| "b64_encode [a, b] =
     [b64_char (drop_bit 2 a), b64_char (push_bit 4 (a AND 3) OR drop_bit 4 b),
      b64_char (push_bit 2 (b AND 15)), 61]"
| "b64_encode [a] = [b64_char (drop_bit 2 a), b64_char (push_bit 4 (a AND 3)), 61, 61]"
| "b64_encode [] = []"

subsection \<open>Bit regrouping and the decoding table\<close>

lemma byte_bit_cases: "possible_bit TYPE(byte) n \<Longrightarrow> n \<in> {0, 1, 2, 3, 4, 5, 6, 7}"
  by auto

lemma regroup:
  fixes a b c :: byte
  shows "push_bit 2 (drop_bit 2 a) OR drop_bit 4 (push_bit 4 (a AND 3) OR drop_bit 4 b) = a"
    "(push_bit 4 (a AND 3) OR drop_bit 4 b) AND 15 = drop_bit 4 b"
    "push_bit 4 (drop_bit 4 b) OR drop_bit 2 (push_bit 2 (b AND 15) OR drop_bit 6 c) = b"
    "(push_bit 2 (b AND 15) OR drop_bit 6 c) AND 3 = drop_bit 6 c"
    "push_bit 6 (drop_bit 6 c) OR (c AND 63) = c"
    "push_bit 4 (drop_bit 4 b) OR drop_bit 2 (push_bit 2 (b AND 15)) = b"
    "(push_bit 2 (b AND 15)) AND 3 = 0"
    "push_bit 2 (drop_bit 2 a) OR drop_bit 4 (push_bit 4 (a AND 3)) = a"
    "push_bit 4 (a AND 3) AND 15 = 0"
  by (rule bit_eqI; drule byte_bit_cases; auto simp: bit_simps; auto simp: eval_nat_numeral dest: bit_imp_le_length)+

lemma byte_lt_64: "drop_bit 6 (x :: byte) = 0 \<Longrightarrow> x < 64"
proof -
  assume "drop_bit 6 x = 0"
  then have "unat x div 64 = 0" using unat_drop_bit_eq [of 6 x] by (simp add: drop_bit_eq_div)
  then show ?thesis by (simp add: word_less_nat_alt)
qed

lemma six_bits:
  fixes a b c :: byte
  shows "drop_bit 2 a < 64" "push_bit 4 (a AND 3) OR drop_bit 4 b < 64"
    "push_bit 2 (b AND 15) OR drop_bit 6 c < 64" "c AND 63 < 64"
    "push_bit 4 (a AND 3) < 64" "push_bit 2 (b AND 15) < 64"
  by (rule byte_lt_64, rule bit_eqI; drule byte_bit_cases; auto simp: bit_simps; auto simp: eval_nat_numeral dest: bit_imp_le_length)+

lemma b64_char_lt: "b64_char v < 128"
  unfolding b64_char_def Let_def by auto

lemma b64_char_unat: "unat (of_nat (b64_char v) :: byte) = b64_char v"
  using b64_char_lt [of v] by (simp add: unat_of_nat)

lemma b64_char_not_pad: "(of_nat (b64_char v) :: byte) \<noteq> 61"
proof
  assume "(of_nat (b64_char v) :: byte) = 61"
  then have "b64_char v = 61" using b64_char_unat [of v] by simp
  then show False by (auto simp: b64_char_def Let_def split: if_splits)
qed

lemma table_b64_char: "v < 64 \<Longrightarrow> table_a2b_base64 (of_nat (b64_char v)) = v"
proof -
  assume v: "v < 64"
  define n where "n = unat v"
  have n: "n < 64" using v by (simp add: n_def word_less_nat_alt)
  have vn: "v = of_nat n" by (simp add: n_def)
  have c: "b64_char v = (if n < 26 then n + 65 else if n < 52 then n + 71 else if n < 62 then n - 4
      else if n = 62 then 43 else 47)"
    by (simp add: b64_char_def n_def)
  have t: "table_a2b_base64 (of_nat (b64_char v)) =
    (let c = b64_char v in
      if 65 \<le> c \<and> c \<le> 90 then of_nat (c - 65)
      else if 97 \<le> c \<and> c \<le> 122 then of_nat (c - 71)
      else if 48 \<le> c \<and> c \<le> 57 then of_nat (c + 4)
      else if c = 43 then 62 else if c = 47 then 63 else 255)"
    by (simp only: table_a2b_base64_def b64_char_unat)
  consider "n < 26" | "26 \<le> n" "n < 52" | "52 \<le> n" "n < 62" | "n = 62" | "n = 63"
    using n by linarith
  then have "(let c = b64_char v in
      if 65 \<le> c \<and> c \<le> 90 then of_nat (c - 65)
      else if 97 \<le> c \<and> c \<le> 122 then of_nat (c - 71)
      else if 48 \<le> c \<and> c \<le> 57 then of_nat (c + 4)
      else if c = 43 then 62 else if c = 47 then (63 :: byte) else 255) = of_nat n"
    by cases (auto simp: c Let_def)
  then show ?thesis by (simp only: t vn [symmetric])
qed

lemma a2b_step_char:
  assumes v: "v < 64"
  shows "a2b_loop (of_nat (b64_char v) # rest) q l p =
     (if q = 0 then a2b_loop rest 1 v 0
      else if q = 1 then map_sum id ((#) (push_bit 2 l OR drop_bit 4 v)) (a2b_loop rest 2 (v AND 15) 0)
      else if q = 2 then map_sum id ((#) (push_bit 4 l OR drop_bit 2 v)) (a2b_loop rest 3 (v AND 3) 0)
      else map_sum id ((#) (push_bit 6 l OR v)) (a2b_loop rest 0 0 0))"
proof -
  have "\<not> 64 \<le> v" using v by (simp add: not_le)
  then show ?thesis by (simp add: b64_char_not_pad table_b64_char v Let_def)
qed

lemma a2b_pad:
  "a2b_loop (61 # rest) q l p =
     (if 2 \<le> q \<and> 4 \<le> q + (p + 1) then Inr []
      else a2b_loop rest q l (if 2 \<le> q then p + 1 else p))"
  by simp

lemma a2b_quad:
  assumes "v0 < 64" "v1 < 64" "v2 < 64" "v3 < 64"
  shows "a2b_loop (map of_nat [b64_char v0, b64_char v1, b64_char v2, b64_char v3] @ rest) 0 0 0 =
     map_sum id (\<lambda>r. (push_bit 2 v0 OR drop_bit 4 v1) # (push_bit 4 (v1 AND 15) OR drop_bit 2 v2)
                    # (push_bit 6 (v2 AND 3) OR v3) # r) (a2b_loop rest 0 0 0)"
  using assms by (simp add: a2b_step_char sum.map_comp comp_def id_def del: a2b_loop.simps(2))

lemma a2b_pad_one:
  assumes "v0 < 64" "v1 < 64" "v2 < 64"
  shows "a2b_loop (map of_nat [b64_char v0, b64_char v1, b64_char v2, 61]) 0 0 0 =
     Inr [push_bit 2 v0 OR drop_bit 4 v1, push_bit 4 (v1 AND 15) OR drop_bit 2 v2]"
  using assms by (simp add: a2b_step_char a2b_pad del: a2b_loop.simps(2))

lemma a2b_pad_two:
  assumes "v0 < 64" "v1 < 64"
  shows "a2b_loop (map of_nat [b64_char v0, b64_char v1, 61, 61]) 0 0 0 =
     Inr [push_bit 2 v0 OR drop_bit 4 v1]"
  using assms by (simp add: a2b_step_char a2b_pad del: a2b_loop.simps(2))

lemma a2b_b64_encode: "a2b_loop (map of_nat (b64_encode bs)) 0 0 0 = Inr bs"
proof (induction bs rule: b64_encode.induct)
  case (1 a b c rest)
  have e: "map of_nat (b64_encode (a # b # c # rest)) =
    map of_nat [b64_char (drop_bit 2 a), b64_char (push_bit 4 (a AND 3) OR drop_bit 4 b),
      b64_char (push_bit 2 (b AND 15) OR drop_bit 6 c), b64_char (c AND 63)]
    @ map of_nat (b64_encode rest)"
    by (simp only: b64_encode.simps map_append append.simps list.map)
  show ?case
    by (simp only: e a2b_quad [OF six_bits(1-4)] "1.IH" regroup map_sum.simps)
next
  case (2 a b)
  show ?case
    by (simp only: b64_encode.simps a2b_pad_one [OF six_bits(1,2,6)] regroup)
next
  case (3 a)
  show ?case
    by (simp only: b64_encode.simps a2b_pad_two [OF six_bits(1,5)] regroup)
qed simp

subsection \<open>Properties of the decoder\<close>

lemma table_61: "table_a2b_base64 61 = 255"
  by (simp add: table_a2b_base64_def)

lemma a2b_skip:
  "64 \<le> table_a2b_base64 ch \<Longrightarrow> ch \<noteq> 61 \<Longrightarrow> a2b_loop (ch # rest) q l p = a2b_loop rest q l p"
  by (simp add: Let_def)

lemma a2b_valid_step:
  "table_a2b_base64 ch < 64 \<Longrightarrow> ch \<noteq> 61"
  using table_61 by auto

text \<open>
  In non-strict mode, bytes outside the alphabet are ignored: decoding a byte string
  gives the same result as decoding it with every byte that is neither in the alphabet
  nor the pad character removed (so line breaks in the message data do no harm).
\<close>

lemma a2b_skips_invalid:
  "a2b_loop s q l p = a2b_loop (filter (\<lambda>ch. table_a2b_base64 ch < 64 \<or> ch = 61) s) q l p"
proof (induction s arbitrary: q l p)
  case (Cons ch rest)
  show ?case
  proof (cases "table_a2b_base64 ch < 64 \<or> ch = 61")
    case True
    then show ?thesis using Cons.IH by (auto simp: Let_def)
  next
    case False
    then show ?thesis using Cons.IH by (simp add: a2b_skip not_less)
  qed
qed simp

text \<open>
  On input made only of alphabet characters (no padding), decoding fails exactly
  when the number of characters, counted from the current position in the quad, is not
  a multiple of four: an unpadded tail is \<open>binascii.Error\<close>, never silently dropped.
\<close>

lemma a2b_unpadded_length:
  assumes "q \<le> 3" "\<forall>ch \<in> set s. table_a2b_base64 ch < 64"
  shows "isl (a2b_loop s q l p) \<longleftrightarrow> (q + length s) mod 4 \<noteq> 0"
  using assms
proof (induction s arbitrary: q l p)
  case (Cons ch rest)
  then have v: "table_a2b_base64 ch < 64" "ch \<noteq> 61" by (auto dest: a2b_valid_step)
  then have nv: "\<not> 64 \<le> table_a2b_base64 ch" by (simp add: not_le)
  consider "q = 0" | "q = 1" | "q = 2" | "q = 3" using Cons.prems by linarith
  then show ?case
    by cases (simp_all add: v nv Let_def Cons.IH Cons.prems isl_map_sum mod_Suc_eq)
qed simp

text \<open>
  \<open>b64decode\<close> inverts \<open>b64encode\<close>: the bytes a publisher encodes are the
  bytes the entry point decodes.
\<close>

lemma b64decode_b64_encode: "b64decode (b64_encode bs) = Inr bs"
proof -
  have "\<forall>c \<in> set (b64_encode bs). c < 128"
    by (induction bs rule: b64_encode.induct) (simp_all add: b64_char_lt)
  then show ?thesis by (simp add: b64decode_def a2b_base64_def a2b_b64_encode)
qed

end
