(* ===== verification/Utf8.thy ===== *)
theory Utf8
  imports Prelude
begin

text \<open>
  \<open>bytes.decode('utf-8')\<close> in the default strict mode, which the entry point applies
  to the base64-decoded message (and \<open>get_secret\<close> to the secret's payload). The
  decoder accepts exactly the well-formed sequences of the Unicode standard (table 3-7),
  as CPython's decoder does: no overlong forms, no surrogates, nothing above U+10FFFF,
  no truncated sequence; anything else is \<open>UnicodeDecodeError\<close>. \<open>utf8_encode\<close> is
  \<open>str.encode('utf-8')\<close> on Unicode scalar values; the main lemma is the round trip.
\<close>

definition in_range :: "nat \<Rightarrow> nat \<Rightarrow> byte \<Rightarrow> bool" where
  "in_range lo hi b = (lo \<le> unat b \<and> unat b \<le> hi)"

fun utf8_decode :: "byte list \<Rightarrow> pystr res" where
  "utf8_decode [] = Inr []"
| "utf8_decode (b0 # bs) =
     (let c0 = unat b0 in
      if c0 < 128 then map_sum id ((#) c0) (utf8_decode bs)
      else if 194 \<le> c0 \<and> c0 \<le> 223 then
        (case bs of
           b1 # bs' \<Rightarrow>
             if in_range 128 191 b1
             then map_sum id ((#) ((c0 mod 32) * 64 + unat b1 mod 64)) (utf8_decode bs')
             else Inl UnicodeDecodeError
         | _ \<Rightarrow> Inl UnicodeDecodeError)
      else if 224 \<le> c0 \<and> c0 \<le> 239 then
        (case bs of
           b1 # b2 # bs' \<Rightarrow>
             if in_range (if c0 = 224 then 160 else 128) (if c0 = 237 then 159 else 191) b1
                \<and> in_range 128 191 b2
             then map_sum id ((#) ((c0 mod 16) * 4096 + (unat b1 mod 64) * 64 + unat b2 mod 64))
                    (utf8_decode bs')
             else Inl UnicodeDecodeError
         | _ \<Rightarrow> Inl UnicodeDecodeError)
      else if 240 \<le> c0 \<and> c0 \<le> 244 then
        (case bs of
           b1 # b2 # b3 # bs' \<Rightarrow>
             if in_range (if c0 = 240 then 144 else 128) (if c0 = 244 then 143 else 191) b1
                \<and> in_range 128 191 b2 \<and> in_range 128 191 b3
             then map_sum id ((#) ((c0 mod 8) * 262144 + (unat b1 mod 64) * 4096
                                  + (unat b2 mod 64) * 64 + unat b3 mod 64))
                    (utf8_decode bs')
             else Inl UnicodeDecodeError
         | _ \<Rightarrow> Inl UnicodeDecodeError)
      else Inl UnicodeDecodeError)"

text \<open>A Unicode scalar value: a code point that is not a surrogate.\<close>

definition scalar :: "nat \<Rightarrow> bool" where
  "scalar c = (c < 1114112 \<and> \<not> (55296 \<le> c \<and> c \<le> 57343))"

definition utf8_encode_char :: "nat \<Rightarrow> byte list" where
  "utf8_encode_char c = map of_nat
     (if c < 128 then [c]
      else if c < 2048 then [192 + c div 64, 128 + c mod 64]
      else if c < 65536 then [224 + c div 4096, 128 + c div 64 mod 64, 128 + c mod 64]
      else [240 + c div 262144, 128 + c div 4096 mod 64, 128 + c div 64 mod 64, 128 + c mod 64])"

definition utf8_encode :: "pystr \<Rightarrow> byte list" where
  "utf8_encode s = concat (map utf8_encode_char s)"

subsection \<open>Decoding what the encoder writes\<close>

lemma unat_byte: "x < 256 \<Longrightarrow> unat (of_nat x :: byte) = x"
  by (simp add: unat_of_nat)

lemma mod_offset: "(n :: nat) dvd a \<Longrightarrow> k < n \<Longrightarrow> (a + k) mod n = k"
  by (auto simp: dvd_def)

lemma digits64:
  fixes c :: nat
  shows "c = c div 64 * 64 + c mod 64"
    "c div 64 = c div 4096 * 64 + c div 64 mod 64"
    "c div 4096 = c div 262144 * 64 + c div 4096 mod 64"
    "c div 64 mod 64 < 64" "c mod 64 < 64" "c div 4096 mod 64 < 64"
proof -
  have a: "c div 64 div 64 = c div 4096" using div_mult2_eq [of c 64 64] by simp
  have b: "c div 4096 div 64 = c div 262144" using div_mult2_eq [of c 4096 64] by simp
  show "c = c div 64 * 64 + c mod 64" by simp
  show "c div 64 = c div 4096 * 64 + c div 64 mod 64"
    using div_mult_mod_eq [of "c div 64" 64] by (simp only: a)
  show "c div 4096 = c div 262144 * 64 + c div 4096 mod 64"
    using div_mult_mod_eq [of "c div 4096" 64] by (simp only: b)
qed simp_all

lemma dec1: "c < 128 \<Longrightarrow> utf8_decode (utf8_encode_char c @ rest) = map_sum id ((#) c) (utf8_decode rest)"
  by (simp add: utf8_encode_char_def unat_byte)

lemma dec2:
  assumes "128 \<le> c" "c < 2048"
  shows "utf8_decode (utf8_encode_char c @ rest) = map_sum id ((#) c) (utf8_decode rest)"
proof -
  let ?k = "c div 64" and ?m = "c mod 64"
  have k: "2 \<le> ?k" "?k < 32" using assms by auto
  obtain b0 b1 where e: "utf8_encode_char c = [b0, b1]"
    and u: "unat b0 = 192 + ?k" "unat b1 = 128 + ?m"
    using assms k by (simp add: utf8_encode_char_def unat_byte del: of_nat_add)
  have v: "((192 + ?k) mod 32) * 64 + (128 + ?m) mod 64 = c"
    using k digits64(1,5) [of c] by (simp add: mod_offset)
  have m: "?m \<le> 63" using mod_less_divisor [of 64 c] by linarith
  show ?thesis
    using k m unfolding e by (simp add: u v in_range_def Let_def)
qed

lemma dec3:
  assumes "2048 \<le> c" "c < 65536" "\<not> (55296 \<le> c \<and> c \<le> 57343)"
  shows "utf8_decode (utf8_encode_char c @ rest) = map_sum id ((#) c) (utf8_decode rest)"
proof -
  let ?k = "c div 4096" and ?j = "c div 64 mod 64" and ?m = "c mod 64"
  have d: "c = ?k * 4096 + ?j * 64 + ?m" "?j < 64" "?m < 64"
    using digits64(1,2,4,5) [of c] by linarith+
  have k: "?k < 16" using assms by auto
  have lo: "?k = 0 \<Longrightarrow> 32 \<le> ?j" using assms d by linarith
  have hi: "?k = 13 \<Longrightarrow> ?j < 32" using assms d by linarith
  obtain b0 b1 b2 where e: "utf8_encode_char c = [b0, b1, b2]"
    and u: "unat b0 = 224 + ?k" "unat b1 = 128 + ?j" "unat b2 = 128 + ?m"
    using assms k by (simp add: utf8_encode_char_def unat_byte del: of_nat_add)
  have v: "((224 + ?k) mod 16) * 4096 + ((128 + ?j) mod 64) * 64 + (128 + ?m) mod 64 = c"
    using k d by (simp add: mod_offset)
  show ?thesis
    using k lo hi d(2-) unfolding e by (auto simp: u v in_range_def Let_def)
qed

lemma dec4:
  assumes "65536 \<le> c" "c < 1114112"
  shows "utf8_decode (utf8_encode_char c @ rest) = map_sum id ((#) c) (utf8_decode rest)"
proof -
  let ?k = "c div 262144" and ?i = "c div 4096 mod 64" and ?j = "c div 64 mod 64" and ?m = "c mod 64"
  have d: "c = ?k * 262144 + ?i * 4096 + ?j * 64 + ?m" "?i < 64" "?j < 64" "?m < 64"
    using digits64 [of c] by linarith+
  have k: "?k \<le> 4" using assms by auto
  have lo: "?k = 0 \<Longrightarrow> 16 \<le> ?i" using assms d by linarith
  have hi: "?k = 4 \<Longrightarrow> ?i < 16" using assms d by linarith
  obtain b0 b1 b2 b3 where e: "utf8_encode_char c = [b0, b1, b2, b3]"
    and u: "unat b0 = 240 + ?k" "unat b1 = 128 + ?i" "unat b2 = 128 + ?j" "unat b3 = 128 + ?m"
    using assms k by (simp add: utf8_encode_char_def unat_byte del: of_nat_add)
  have v: "((240 + ?k) mod 8) * 262144 + ((128 + ?i) mod 64) * 4096 + ((128 + ?j) mod 64) * 64
      + (128 + ?m) mod 64 = c"
    using k d by (simp add: mod_offset)
  show ?thesis
    using k lo hi d(2-) unfolding e by (auto simp: u v in_range_def Let_def)
qed

subsection \<open>What the decoder accepts\<close>

lemma digit_div_mod:
  fixes x y b :: nat
  assumes "y < b"
  shows "(x * b + y) div b = x" "(x * b + y) mod b = y"
  using assms by simp_all

lemma inv1:
  assumes "unat b0 < 128"
  shows "scalar (unat b0) \<and> utf8_encode_char (unat b0) = [b0]"
  using assms by (simp add: scalar_def utf8_encode_char_def)

lemma inv2:
  assumes "194 \<le> unat b0" "unat b0 \<le> 223" "in_range 128 191 b1"
  shows "scalar ((unat b0 mod 32) * 64 + unat b1 mod 64) \<and>
         utf8_encode_char ((unat b0 mod 32) * 64 + unat b1 mod 64) = [b0, b1]"
proof -
  define x y where "x = unat b0 - 192" and "y = unat b1 - 128"
  have u: "unat b0 = 192 + x" "unat b1 = 128 + y" and xy: "2 \<le> x" "x < 32" "y < 64"
    using assms by (auto simp: x_def y_def in_range_def)
  have c: "(unat b0 mod 32) * 64 + unat b1 mod 64 = x * 64 + y"
    using xy by (simp add: u mod_offset)
  have e: "utf8_encode_char (x * 64 + y) = map of_nat [192 + x, 128 + y]"
    using xy by (simp add: utf8_encode_char_def digit_div_mod del: of_nat_add)
  show ?thesis
    unfolding c e using xy by (simp add: scalar_def u [symmetric] del: of_nat_add)
qed

lemma digits3:
  fixes x y z :: nat
  assumes "y < 64" "z < 64"
  shows "((x * 64 + y) * 64 + z) div 4096 = x" "((x * 64 + y) * 64 + z) div 64 mod 64 = y"
    "((x * 64 + y) * 64 + z) mod 64 = z"
proof -
  have "((x * 64 + y) * 64 + z) div 64 = x * 64 + y" using assms by simp
  moreover have "((x * 64 + y) * 64 + z) div 4096 = ((x * 64 + y) * 64 + z) div 64 div 64"
    using div_mult2_eq [of _ 64 64] by simp
  ultimately show "((x * 64 + y) * 64 + z) div 4096 = x" "((x * 64 + y) * 64 + z) div 64 mod 64 = y"
    using assms by simp_all
  show "((x * 64 + y) * 64 + z) mod 64 = z" by (rule digit_div_mod(2)) (rule assms(2))
qed

lemma inv3:
  assumes "224 \<le> unat b0" "unat b0 \<le> 239"
    "in_range (if unat b0 = 224 then 160 else 128) (if unat b0 = 237 then 159 else 191) b1"
    "in_range 128 191 b2"
  shows "scalar ((unat b0 mod 16) * 4096 + (unat b1 mod 64) * 64 + unat b2 mod 64) \<and>
         utf8_encode_char ((unat b0 mod 16) * 4096 + (unat b1 mod 64) * 64 + unat b2 mod 64)
           = [b0, b1, b2]"
proof -
  define x y z where "x = unat b0 - 224" and "y = unat b1 - 128" and "z = unat b2 - 128"
  have u: "unat b0 = 224 + x" "unat b1 = 128 + y" "unat b2 = 128 + z"
    and xyz: "x < 16" "y < 64" "z < 64" "x = 0 \<Longrightarrow> 32 \<le> y" "x = 13 \<Longrightarrow> y < 32"
    using assms by (auto simp: x_def y_def z_def in_range_def split: if_splits)
  define c where "c = (x * 64 + y) * 64 + z"
  have cv: "(unat b0 mod 16) * 4096 + (unat b1 mod 64) * 64 + unat b2 mod 64 = c"
    using xyz by (simp add: u mod_offset c_def)
  have d: "c div 4096 = x" "c div 64 mod 64 = y" "c mod 64 = z"
    unfolding c_def using digits3 xyz by simp_all
  have r: "2048 \<le> c" "c < 65536"
    using xyz unfolding c_def by (cases "x = 0"; simp)+
  have s: "scalar c"
    using xyz r unfolding c_def by (cases "x = 13") (simp_all add: scalar_def)
  have e: "utf8_encode_char c = map of_nat [224 + x, 128 + y, 128 + z]"
    using r by (simp add: utf8_encode_char_def d del: of_nat_add)
  show ?thesis
    unfolding cv e using s by (simp add: u [symmetric] del: of_nat_add)
qed

lemma digits4:
  fixes w x y z :: nat
  assumes "x < 64" "y < 64" "z < 64"
  shows "(((w * 64 + x) * 64 + y) * 64 + z) div 262144 = w"
    "(((w * 64 + x) * 64 + y) * 64 + z) div 4096 mod 64 = x"
    "(((w * 64 + x) * 64 + y) * 64 + z) div 64 mod 64 = y"
    "(((w * 64 + x) * 64 + y) * 64 + z) mod 64 = z"
proof -
  let ?c = "((w * 64 + x) * 64 + y) * 64 + z"
  have a: "?c div 64 = (w * 64 + x) * 64 + y" using assms by simp
  have b: "?c div 4096 = ?c div 64 div 64" using div_mult2_eq [of _ 64 64] by simp
  have c: "?c div 262144 = ?c div 4096 div 64" using div_mult2_eq [of _ 4096 64] by simp
  have b': "?c div 4096 = w * 64 + x" using assms by (simp only: b a digit_div_mod)
  show "?c div 262144 = w" using assms by (simp only: c b' digit_div_mod)
  show "?c div 4096 mod 64 = x" using assms by (simp only: b' digit_div_mod)
  show "?c div 64 mod 64 = y" using assms by (simp only: a digit_div_mod)
  show "?c mod 64 = z" by (rule digit_div_mod(2)) (rule assms(3))
qed

lemma inv4:
  assumes "240 \<le> unat b0" "unat b0 \<le> 244"
    "in_range (if unat b0 = 240 then 144 else 128) (if unat b0 = 244 then 143 else 191) b1"
    "in_range 128 191 b2" "in_range 128 191 b3"
  shows "scalar ((unat b0 mod 8) * 262144 + (unat b1 mod 64) * 4096 + (unat b2 mod 64) * 64
                 + unat b3 mod 64) \<and>
         utf8_encode_char ((unat b0 mod 8) * 262144 + (unat b1 mod 64) * 4096
                 + (unat b2 mod 64) * 64 + unat b3 mod 64) = [b0, b1, b2, b3]"
proof -
  define w x y z where "w = unat b0 - 240" and "x = unat b1 - 128" and "y = unat b2 - 128"
    and "z = unat b3 - 128"
  have u: "unat b0 = 240 + w" "unat b1 = 128 + x" "unat b2 = 128 + y" "unat b3 = 128 + z"
    and wxyz: "w \<le> 4" "x < 64" "y < 64" "z < 64" "w = 0 \<Longrightarrow> 16 \<le> x" "w = 4 \<Longrightarrow> x < 16"
    using assms by (auto simp: w_def x_def y_def z_def in_range_def split: if_splits)
  define c where "c = ((w * 64 + x) * 64 + y) * 64 + z"
  have cv: "(unat b0 mod 8) * 262144 + (unat b1 mod 64) * 4096 + (unat b2 mod 64) * 64
                 + unat b3 mod 64 = c"
    using wxyz by (simp add: u mod_offset c_def)
  have d: "c div 262144 = w" "c div 4096 mod 64 = x" "c div 64 mod 64 = y" "c mod 64 = z"
    unfolding c_def using digits4 wxyz by simp_all
  have r: "65536 \<le> c" "c < 1114112"
    using wxyz unfolding c_def by (cases "w = 0"; cases "w = 4"; simp)+
  have s: "scalar c" using r by (simp add: scalar_def)
  have e: "utf8_encode_char c = map of_nat [240 + w, 128 + x, 128 + y, 128 + z]"
    using r by (simp add: utf8_encode_char_def d del: of_nat_add)
  show ?thesis
    unfolding cv e using s by (simp add: u [symmetric] del: of_nat_add)
qed

lemma map_sum_Cons_eq_Inr:
  "map_sum id ((#) c) r = Inr s \<longleftrightarrow> (\<exists>s'. r = Inr s' \<and> s = c # s')"
  by (cases r) auto

lemma dec_char:
  "scalar c \<Longrightarrow> utf8_decode (utf8_encode_char c @ rest) = map_sum id ((#) c) (utf8_decode rest)"
  unfolding scalar_def using dec1 dec2 dec3 dec4 by (meson not_less)

lemma utf8_decode_ConsE:
  assumes dec: "utf8_decode (b0 # bs) = Inr s"
  obtains c rest s' where "b0 # bs = utf8_encode_char c @ rest" "scalar c" "s = c # s'"
    "utf8_decode rest = Inr s'" "length rest < length (b0 # bs)"
proof -
  let ?u = "unat b0"
  consider (one) "?u < 128" | (two) "\<not> ?u < 128" "194 \<le> ?u \<and> ?u \<le> 223"
    | (three) "\<not> ?u < 128" "\<not> (194 \<le> ?u \<and> ?u \<le> 223)" "224 \<le> ?u \<and> ?u \<le> 239"
    | (four) "\<not> ?u < 128" "\<not> (194 \<le> ?u \<and> ?u \<le> 223)" "\<not> (224 \<le> ?u \<and> ?u \<le> 239)"
        "240 \<le> ?u \<and> ?u \<le> 244"
    | (bad) "\<not> ?u < 128" "\<not> (194 \<le> ?u \<and> ?u \<le> 223)" "\<not> (224 \<le> ?u \<and> ?u \<le> 239)"
        "\<not> (240 \<le> ?u \<and> ?u \<le> 244)"
    by blast
  then show thesis
  proof cases
    case one
    with dec obtain s' where "utf8_decode bs = Inr s'" "s = ?u # s'"
      by (auto simp: map_sum_Cons_eq_Inr)
    with inv1 [OF one] show thesis by (intro that [of ?u bs s']) simp_all
  next
    case two
    with dec obtain b1 bs' s' where "bs = b1 # bs'" "in_range 128 191 b1" "utf8_decode bs' = Inr s'"
        "s = ((?u mod 32) * 64 + unat b1 mod 64) # s'"
      by (auto simp: map_sum_Cons_eq_Inr Let_def split: list.splits if_splits)
    with inv2 two show thesis by (intro that) auto
  next
    case three
    with dec obtain b1 b2 bs' s' where "bs = b1 # b2 # bs'"
        "in_range (if ?u = 224 then 160 else 128) (if ?u = 237 then 159 else 191) b1"
        "in_range 128 191 b2" "utf8_decode bs' = Inr s'"
        "s = ((?u mod 16) * 4096 + (unat b1 mod 64) * 64 + unat b2 mod 64) # s'"
      by (auto simp: map_sum_Cons_eq_Inr Let_def split: list.splits if_splits)
    with inv3 three show thesis by (intro that) auto
  next
    case four
    with dec obtain b1 b2 b3 bs' s' where "bs = b1 # b2 # b3 # bs'"
        "in_range (if ?u = 240 then 144 else 128) (if ?u = 244 then 143 else 191) b1"
        "in_range 128 191 b2" "in_range 128 191 b3" "utf8_decode bs' = Inr s'"
        "s = ((?u mod 8) * 262144 + (unat b1 mod 64) * 4096 + (unat b2 mod 64) * 64
              + unat b3 mod 64) # s'"
      by (auto simp: map_sum_Cons_eq_Inr Let_def split: list.splits if_splits)
    with inv4 four show thesis by (intro that) auto
  next
    case bad
    with dec show thesis by simp
  qed
qed

lemma utf8_decode_encode: "\<forall>c \<in> set s. scalar c \<Longrightarrow> utf8_decode (utf8_encode s) = Inr s"
  by (induction s) (simp_all add: utf8_encode_def dec_char)

lemma utf8_decode_sound:
  "utf8_decode bs = Inr s \<Longrightarrow> (\<forall>c \<in> set s. scalar c) \<and> utf8_encode s = bs"
proof (induction "length bs" arbitrary: bs s rule: less_induct)
  case less
  show ?case
  proof (cases bs)
    case Nil
    then show ?thesis using less.prems by (simp add: utf8_encode_def)
  next
    case (Cons b0 bs0)
    from less.prems have "utf8_decode (b0 # bs0) = Inr s" by (simp only: Cons)
    then obtain c rest s' where e: "b0 # bs0 = utf8_encode_char c @ rest" and c: "scalar c"
        and s: "s = c # s'" and r: "utf8_decode rest = Inr s'" and l: "length rest < length (b0 # bs0)"
      by (rule utf8_decode_ConsE)
    have "(\<forall>c \<in> set s'. scalar c) \<and> utf8_encode s' = rest"
      using less.hyps [OF _ r] l Cons by simp
    then show ?thesis using e c s Cons by (simp add: utf8_encode_def)
  qed
qed

text \<open>
  The strict decoder accepts exactly the encodings of strings of Unicode scalar
  values: it succeeds on a byte string iff the result has no surrogate and nothing above
  U+10FFFF and encodes back to the same bytes (so overlong forms, surrogates and
  truncated sequences are all rejected), and decoding inverts encoding.
\<close>

lemma utf8_decode_iff:
  "utf8_decode bs = Inr s \<longleftrightarrow> (\<forall>c \<in> set s. scalar c) \<and> utf8_encode s = bs"
  using utf8_decode_sound utf8_decode_encode by blast

end
