(* ===== verification/Notifier.thy ===== *)
theory Notifier
  imports MergeTemplate Base64 Utf8
begin

text \<open>
  The three functions of main.py that talk to the outside world: \<open>get_secret\<close>
  (lines 105--109), \<open>message_post\<close> (lines 15--45) and the entry point
  \<open>scc_finding_slack_notifier\<close> (lines 112--135), with the module-level configuration
  (lines 10--12). The cloud services are an environment \<open>world\<close> of oracles, one per
  call the code makes into a library it does not own; what the code does with their
  answers is modelled exactly. A run returns the trace of its observable effects (the
  secret it asks for, the HTTP request it sends, what it prints and what it logs) and
  its outcome, \<open>Inl\<close> the exception that escapes the function.
\<close>

subsection \<open>Configuration and environment\<close>

text \<open>Lines 10--12: \<open>getenv\<close> gives \<open>None\<close> for an unset variable.\<close>

record config =
  SLACK_CHANNEL :: "pystr option"
  SECRET_PROJECT_ID :: "pystr option"
  SECRET_ID :: "pystr option"

text \<open>An optional string in an f-string: \<open>None\<close> is written \<open>None\<close>.\<close>

definition fmt_opt :: "pystr option \<Rightarrow> pystr" where
  "fmt_opt v = (case v of None \<Rightarrow> py ''None'' | Some s \<Rightarrow> s)"

text \<open>
  The environment. \<open>w_secret_client\<close> is \<open>SecretManagerServiceClient()\<close>, which fails
  without credentials; \<open>w_secret\<close> gives the payload bytes of a secret version by
  resource name; \<open>w_template\<close> is \<open>open("finding-detail.json")\<close> followed by
  \<open>json.load\<close>; \<open>w_loads\<close> is \<open>json.loads\<close> on a string (a parser the model does not
  reproduce); \<open>w_post\<close> answers an HTTP POST of a URL, body and headers with a status
  code and a response text; \<open>w_logging_client\<close> is \<open>logging.Client()\<close> and \<open>w_log\<close>
  the outcome of writing a log entry.
\<close>

record world =
  w_secret_client :: "unit res"
  w_secret :: "pystr \<Rightarrow> byte list res"
  w_template :: "pyval res"
  w_loads :: "pystr \<Rightarrow> pyval res"
  w_post :: "pystr \<Rightarrow> pystr \<Rightarrow> (pystr \<times> pystr) list \<Rightarrow> (int \<times> pystr) res"
  w_logging_client :: "unit res"
  w_log :: "unit res"

text \<open>
  The observable effects, in the order they happen: a request for a secret version, the
  POST to the chat API (URL, body, headers), a line printed by \<open>message_post\<close>'s handler
  and an entry written by the entry point's handler, each carrying the exception whose
  text it shows.
\<close>

datatype effect =
    SecretAccess pystr
  | HttpPost pystr pystr "(pystr \<times> pystr) list"
  | PrintError exc
  | LogEntry exc

subsection \<open>Computations with effects\<close>

text \<open>
  A computation returns the effects it performed and its outcome. \<open>io_bind\<close> runs the
  second computation only when the first returned, and concatenates the traces;
  \<open>io_try\<close> is a \<open>try\<close>/\<open>except Exception\<close> block, which keeps the effects of the
  failed body.
\<close>

type_synonym 'a io = "effect list \<times> 'a res"

definition io_bind :: "'a io \<Rightarrow> ('a \<Rightarrow> 'b io) \<Rightarrow> 'b io" where
  "io_bind m f =
     (case m of
        (es, Inl e) \<Rightarrow> (es, Inl e)
      | (es, Inr x) \<Rightarrow> (case f x of (es', r) \<Rightarrow> (es @ es', r)))"

definition io_lift :: "'a res \<Rightarrow> 'a io" where
  "io_lift r = ([], r)"

definition io_emit :: "effect \<Rightarrow> unit io" where
  "io_emit ef = ([ef], Inr ())"

definition io_try :: "unit io \<Rightarrow> (exc \<Rightarrow> unit io) \<Rightarrow> unit io" where
  "io_try m h =
     (case m of
        (es, Inl e) \<Rightarrow> (case h e of (es', r) \<Rightarrow> (es @ es', r))
      | (es, Inr x) \<Rightarrow> (es, Inr x))"

subsection \<open>get_secret (lines 105--109)\<close>

definition secret_name :: "config \<Rightarrow> pystr option \<Rightarrow> pystr \<Rightarrow> pystr" where
  "secret_name cfg secret_id version_id =
     py ''projects/'' @ fmt_opt (SECRET_PROJECT_ID cfg) @ py ''/secrets/'' @ fmt_opt secret_id
     @ py ''/versions/'' @ version_id"

definition get_secret :: "config \<Rightarrow> world \<Rightarrow> pystr option \<Rightarrow> pystr \<Rightarrow> pystr io" where
  "get_secret cfg w secret_id version_id =
     io_bind (io_lift (w_secret_client w)) (\<lambda>_.
     (let name = secret_name cfg secret_id version_id in
      io_bind (io_emit (SecretAccess name)) (\<lambda>_.
      io_bind (io_lift (w_secret w name)) (\<lambda>data.
      io_lift (utf8_decode data)))))"

subsection \<open>message_post (lines 15--45)\<close>

definition slack_url :: pystr where
  "slack_url = py ''https://slack.com/api/chat.postMessage''"

definition slack_headers :: "pystr \<Rightarrow> (pystr \<times> pystr) list" where
  "slack_headers token =
     [(py ''Authorization'', py ''Bearer '' @ token),
      (py ''Content-Type'', py ''application/json; charset=utf-8'')]"

text \<open>Lines 32--37: the request body before \<open>json.dumps\<close>.\<close>

definition slack_params :: "pystr option \<Rightarrow> pyval \<Rightarrow> pyval" where
  "slack_params channel_id blocks =
     PDict [(KStr (py ''channel''), (case channel_id of None \<Rightarrow> PNone | Some c \<Rightarrow> PStr c)),
            (KStr (py ''blocks''), blocks),
            (KStr (py ''text''), PStr (py ''Alternate content from block content'')),
            (KStr (py ''unfurl_links''), PStr (py ''false''))]"

text \<open>
  Lines 40--41: the f-string is continued with a backslash inside the literal, so the
  sixteen spaces that indent line 41 are part of the message.
\<close>

definition slack_error :: "int \<Rightarrow> pystr \<Rightarrow> exc" where
  "slack_error status text =
     ValueError (py ''Request to Slack returned error '' @ replicate 16 32 @ py_int_str status
                 @ py ''. Response is: '' @ text)"

text \<open>Lines 39--41: a reply other than 200 raises.\<close>

definition check_status :: "int \<times> pystr \<Rightarrow> unit res" where
  "check_status r = (case r of (status, text) \<Rightarrow>
     if status \<noteq> 200 then Inl (slack_error status text) else Inr ())"

text \<open>Line 19: \<open>data if type(data) is dict else json.loads(data)\<close>.\<close>

definition load_payload :: "world \<Rightarrow> pyval \<Rightarrow> pyval res" where
  "load_payload w data =
     (case data of PDict _ \<Rightarrow> Inr data | PStr s \<Rightarrow> w_loads w s | _ \<Rightarrow> Inl TypeError)"

text \<open>Lines 26--41: the body of the \<open>try\<close>.\<close>

definition post_body :: "config \<Rightarrow> world \<Rightarrow> pyval \<Rightarrow> pystr \<Rightarrow> unit io" where
  "post_body cfg w payload token =
     io_bind (io_lift (w_template w)) (\<lambda>block_template.
     io_bind (io_lift (merge_template block_template payload)) (\<lambda>blocks.
     (let body = json_dumps (slack_params (SLACK_CHANNEL cfg) blocks);
          headers = slack_headers token in
      io_bind (io_emit (HttpPost slack_url body headers)) (\<lambda>_.
      io_bind (io_lift (w_post w slack_url body headers)) (\<lambda>r.
      io_lift (check_status r))))))"

definition message_post :: "config \<Rightarrow> world \<Rightarrow> pyval \<Rightarrow> unit io" where
  "message_post cfg w data =
     io_bind (get_secret cfg w (SECRET_ID cfg) (py ''latest'')) (\<lambda>token.
     io_bind (io_lift (load_payload w data)) (\<lambda>payload.
     io_try (post_body cfg w payload token) (\<lambda>e. io_emit (PrintError e))))"

subsection \<open>The entry point (lines 112--135)\<close>

text \<open>
  Line 132: \<open>base64.b64decode(event['data']).decode('utf-8')\<close>. A \<open>str\<close> is decoded
  as base64; the model's values have no \<open>bytes\<close>, and every other value is not
  bytes-like.
\<close>

definition decode_event :: "pyval \<Rightarrow> pystr res" where
  "decode_event event =
     res_bind (py_getitem event (KStr (py ''data''))) (\<lambda>data.
     res_bind (case data of PStr s \<Rightarrow> b64decode s | _ \<Rightarrow> Inl TypeError) (\<lambda>raw.
     utf8_decode raw))"

definition scc_finding_slack_notifier :: "config \<Rightarrow> world \<Rightarrow> pyval \<Rightarrow> unit io" where
  "scc_finding_slack_notifier cfg w event =
     io_bind (io_lift (w_logging_client w)) (\<lambda>_.
     io_try
       (io_bind (io_lift (decode_event event)) (\<lambda>payload. message_post cfg w (PStr payload)))
       (\<lambda>e. io_bind (io_emit (LogEntry e)) (\<lambda>_. io_lift (w_log w))))"

subsection \<open>Observations on traces, the pure core and an example run\<close>

text \<open>
  \<open>slack_message\<close> is the pure part of lines 30--38: the request body computed from the
  template and the payload, the function the spec's design notes separate from the
  effects. \<open>pubsub_event d\<close> is an event as the Pub/Sub trigger delivers it, with
  message data \<open>d\<close>. The example configuration, environment and event drive the
  witnesses.
\<close>

abbreviation latest_name :: "config \<Rightarrow> pystr" where
  "latest_name cfg \<equiv> secret_name cfg (SECRET_ID cfg) (py ''latest'')"

fun is_post :: "effect \<Rightarrow> bool" where
  "is_post (HttpPost u b h) = True"
| "is_post _ = False"

fun is_report :: "effect \<Rightarrow> bool" where
  "is_report (PrintError e) = True"
| "is_report (LogEntry e) = True"
| "is_report _ = False"

fun is_secret_access :: "effect \<Rightarrow> bool" where
  "is_secret_access (SecretAccess n) = True"
| "is_secret_access _ = False"

definition example_cfg :: config where
  "example_cfg = \<lparr>SLACK_CHANNEL = Some (py ''C01''), SECRET_PROJECT_ID = Some (py ''sec-proj''),
                   SECRET_ID = Some (py ''slack-token'')\<rparr>"

definition example_world :: world where
  "example_world = \<lparr>w_secret_client = Inr (), w_secret = (\<lambda>n. Inr (map of_nat (py ''xoxb-1''))),
     w_template = Inr example_template,
     w_loads = (\<lambda>s. Inr (example_payload (example_finding example_name (py ''OPEN_FIREWALL'') (py ''HIGH'')))),
     w_post = (\<lambda>u b h. Inr (200, py ''ok'')), w_logging_client = Inr (), w_log = Inr ()\<rparr>"

definition pubsub_event :: "pystr \<Rightarrow> pyval" where
  "pubsub_event d = PDict [(KStr (py ''data''), PStr d)]"

definition slack_message :: "config \<Rightarrow> pyval \<Rightarrow> pyval \<Rightarrow> pystr res" where
  "slack_message cfg template payload =
     res_bind (merge_template template payload) (\<lambda>blocks.
     Inr (json_dumps (slack_params (SLACK_CHANNEL cfg) blocks)))"

subsection \<open>Rules of the effect monad and closed forms\<close>

lemma io_bind_simps [simp]:
  "io_bind (es, Inl e) f = (es, Inl e)"
  "io_bind (es, Inr x) f = (es @ fst (f x), snd (f x))"
  by (simp_all add: io_bind_def split: prod.splits)

lemma io_try_simps [simp]:
  "io_try (es, Inr x) h = (es, Inr x)"
  "io_try (es, Inl e) h = (es @ fst (h e), snd (h e))"
  by (simp_all add: io_try_def split: prod.splits)

lemmas io_defs = io_lift_def io_emit_def

lemma get_secret_eq:
  "get_secret cfg w sid v =
     (case w_secret_client w of
        Inl e \<Rightarrow> ([], Inl e)
      | Inr _ \<Rightarrow> ([SecretAccess (secret_name cfg sid v)],
                  res_bind (w_secret w (secret_name cfg sid v)) utf8_decode))"
  by (cases "w_secret_client w"; cases "w_secret w (secret_name cfg sid v)")
     (simp_all add: get_secret_def io_defs)

lemma post_body_eq:
  "post_body cfg w payload token =
     (case res_bind (w_template w) (\<lambda>t. merge_template t payload) of
        Inl e \<Rightarrow> ([], Inl e)
      | Inr blocks \<Rightarrow>
          ([HttpPost slack_url (json_dumps (slack_params (SLACK_CHANNEL cfg) blocks)) (slack_headers token)],
           res_bind (w_post w slack_url (json_dumps (slack_params (SLACK_CHANNEL cfg) blocks))
                       (slack_headers token)) check_status))"
  by (cases "w_template w"; cases "res_bind (w_template w) (\<lambda>t. merge_template t payload)";
      cases "w_post w slack_url (json_dumps (slack_params (SLACK_CHANNEL cfg)
               (projr (res_bind (w_template w) (\<lambda>t. merge_template t payload)))))
               (slack_headers token)")
     (simp_all add: post_body_def io_defs Let_def)

lemma message_post_eq:
  "message_post cfg w data =
     (case w_secret_client w of
        Inl e \<Rightarrow> ([], Inl e)
      | Inr _ \<Rightarrow>
          (case res_bind (w_secret w (latest_name cfg)) utf8_decode of
             Inl e \<Rightarrow> ([SecretAccess (latest_name cfg)], Inl e)
           | Inr token \<Rightarrow>
               (case load_payload w data of
                  Inl e \<Rightarrow> ([SecretAccess (latest_name cfg)], Inl e)
                | Inr payload \<Rightarrow>
                    (SecretAccess (latest_name cfg) # fst (post_body cfg w payload token)
                       @ (case snd (post_body cfg w payload token) of
                            Inl e \<Rightarrow> [PrintError e] | Inr _ \<Rightarrow> []), Inr ()))))"
proof (cases "w_secret_client w")
  case (Inr u)
  show ?thesis
  proof (cases "res_bind (w_secret w (latest_name cfg)) utf8_decode")
    case tok: (Inr token)
    show ?thesis
    proof (cases "load_payload w data")
      case (Inr payload)
      obtain es r where "post_body cfg w payload token = (es, r)" by fastforce
      then show ?thesis using Inr tok \<open>w_secret_client w = Inr u\<close>
        by (cases r) (simp_all add: message_post_def get_secret_eq io_defs)
    qed (use tok Inr in \<open>simp_all add: message_post_def get_secret_eq io_defs\<close>)
  qed (use Inr in \<open>simp_all add: message_post_def get_secret_eq io_defs\<close>)
qed (simp add: message_post_def get_secret_eq)

lemma handler_eq:
  "scc_finding_slack_notifier cfg w ev =
     (case w_logging_client w of
        Inl e \<Rightarrow> ([], Inl e)
      | Inr _ \<Rightarrow>
          (case decode_event ev of
             Inl e \<Rightarrow> ([LogEntry e], w_log w)
           | Inr text \<Rightarrow>
               (case snd (message_post cfg w (PStr text)) of
                  Inl e \<Rightarrow> (fst (message_post cfg w (PStr text)) @ [LogEntry e], w_log w)
                | Inr u \<Rightarrow> message_post cfg w (PStr text))))"
proof (cases "w_logging_client w")
  case (Inr u)
  show ?thesis
  proof (cases "decode_event ev")
    case (Inr msg)
    obtain es r where "message_post cfg w (PStr msg) = (es, r)" by fastforce
    then show ?thesis using Inr \<open>w_logging_client w = Inr u\<close>
      by (cases r) (simp_all add: scc_finding_slack_notifier_def io_defs)
  qed (use Inr in \<open>simp add: scc_finding_slack_notifier_def io_defs\<close>)
qed (simp add: scc_finding_slack_notifier_def io_defs)

lemma example_decode: "decode_event (pubsub_event (py ''e30='')) = Inr (py ''{}'')"
  by (simp add: decode_event_def pubsub_event_def b64decode_def a2b_base64_def table_a2b_base64_def
      Let_def in_range_def)

lemma example_secret:
  "res_bind (w_secret example_world (latest_name example_cfg)) utf8_decode = Inr (py ''xoxb-1'')"
  by (simp add: example_world_def)

text \<open>
  C8: the entry point delivers: when every call succeeds and the chat API answers 200,
  the run asks for the secret once, posts the merged template once and returns normally,
  with nothing printed or logged.
\<close>

theorem handler_delivers:
  assumes "w_logging_client w = Inr ()" "decode_event ev = Inr msg" "w_secret_client w = Inr ()"
    "res_bind (w_secret w (latest_name cfg)) utf8_decode = Inr token"
    "w_loads w msg = Inr payload" "w_template w = Inr template"
    "merge_template template payload = Inr blocks"
    "w_post w slack_url (json_dumps (slack_params (SLACK_CHANNEL cfg) blocks)) (slack_headers token)
       = Inr (200, reply)"
  shows "scc_finding_slack_notifier cfg w ev =
    ([SecretAccess (latest_name cfg),
      HttpPost slack_url (json_dumps (slack_params (SLACK_CHANNEL cfg) blocks)) (slack_headers token)],
     Inr ())"
  using assms by (simp add: handler_eq message_post_eq post_body_eq load_payload_def check_status_def)

theorem handler_delivers_witness:
  "\<exists>blocks. scc_finding_slack_notifier example_cfg example_world (pubsub_event (py ''e30='')) =
    ([SecretAccess (py ''projects/sec-proj/secrets/slack-token/versions/latest''),
      HttpPost slack_url (json_dumps (slack_params (Some (py ''C01'')) blocks)) (slack_headers (py ''xoxb-1''))],
     Inr ())"
proof -
  have "\<not> isl (merge_template example_template
          (example_payload (example_finding example_name (py ''OPEN_FIREWALL'') (py ''HIGH''))))"
    by (simp add: example_defs merge_eval)
  then obtain blocks where mg: "merge_template example_template
          (example_payload (example_finding example_name (py ''OPEN_FIREWALL'') (py ''HIGH''))) = Inr blocks"
    using Inr_of_not_isl by blast
  have "scc_finding_slack_notifier example_cfg example_world (pubsub_event (py ''e30='')) =
    ([SecretAccess (latest_name example_cfg),
      HttpPost slack_url (json_dumps (slack_params (SLACK_CHANNEL example_cfg) blocks)) (slack_headers (py ''xoxb-1''))],
     Inr ())"
    by (rule handler_delivers [OF _ example_decode _ example_secret _ _ mg])
       (simp_all add: example_world_def)
  then show ?thesis by (auto simp: example_cfg_def secret_name_def fmt_opt_def)
qed

lemmas handler_unfold = handler_eq message_post_eq post_body_eq load_payload_def check_status_def

text \<open>
  C5: a reply other than 200 raises the \<open>ValueError\<close> of lines 40--41, whose
  text holds the status code and the response body; it is caught by
  \<open>message_post\<close> and printed, so the run writes no log entry and returns
  normally.
\<close>

theorem handler_http_error:
  assumes "w_logging_client w = Inr ()" "decode_event ev = Inr msg" "w_secret_client w = Inr ()"
    "res_bind (w_secret w (latest_name cfg)) utf8_decode = Inr token"
    "w_loads w msg = Inr payload" "w_template w = Inr template"
    "merge_template template payload = Inr blocks"
    "w_post w slack_url (json_dumps (slack_params (SLACK_CHANNEL cfg) blocks)) (slack_headers token)
       = Inr (status, reply)" "status \<noteq> 200"
  shows "scc_finding_slack_notifier cfg w ev =
    ([SecretAccess (latest_name cfg),
      HttpPost slack_url (json_dumps (slack_params (SLACK_CHANNEL cfg) blocks)) (slack_headers token),
      PrintError (slack_error status reply)],
     Inr ())"
  using assms by (simp add: handler_unfold)

theorem handler_http_error_witness:
  "\<exists>blocks. scc_finding_slack_notifier example_cfg
      (example_world\<lparr>w_post := \<lambda>u b h. Inr (500, py ''invalid_auth'')\<rparr>) (pubsub_event (py ''e30='')) =
    ([SecretAccess (py ''projects/sec-proj/secrets/slack-token/versions/latest''),
      HttpPost slack_url (json_dumps (slack_params (Some (py ''C01'')) blocks)) (slack_headers (py ''xoxb-1'')),
      PrintError (slack_error 500 (py ''invalid_auth''))],
     Inr ())"
proof -
  have "\<not> isl (merge_template example_template
          (example_payload (example_finding example_name (py ''OPEN_FIREWALL'') (py ''HIGH''))))"
    by (simp add: example_defs merge_eval)
  then obtain blocks where mg: "merge_template example_template
          (example_payload (example_finding example_name (py ''OPEN_FIREWALL'') (py ''HIGH''))) = Inr blocks"
    using Inr_of_not_isl by blast
  have "scc_finding_slack_notifier example_cfg
      (example_world\<lparr>w_post := \<lambda>u b h. Inr (500, py ''invalid_auth'')\<rparr>) (pubsub_event (py ''e30='')) =
    ([SecretAccess (latest_name example_cfg),
      HttpPost slack_url (json_dumps (slack_params (SLACK_CHANNEL example_cfg) blocks)) (slack_headers (py ''xoxb-1'')),
      PrintError (slack_error 500 (py ''invalid_auth''))], Inr ())"
    by (rule handler_http_error [OF _ example_decode _ _ _ _ mg])
       (simp_all add: example_world_def)
  then show ?thesis by (auto simp: example_cfg_def secret_name_def fmt_opt_def)
qed

text \<open>
  C4: a payload that \<open>json.loads\<close> rejects results in exactly one log entry,
  carrying the parser's exception, and no request to the chat API (the secret has
  already been fetched: \<open>json.loads\<close> runs before the \<open>try\<close> of
  \<open>message_post\<close>).
\<close>

theorem handler_bad_json:
  assumes "w_logging_client w = Inr ()" "decode_event ev = Inr msg" "w_secret_client w = Inr ()"
    "res_bind (w_secret w (latest_name cfg)) utf8_decode = Inr token"
    "w_loads w msg = Inl e"
  shows "scc_finding_slack_notifier cfg w ev = ([SecretAccess (latest_name cfg), LogEntry e], w_log w)"
  using assms by (simp add: handler_unfold)

theorem handler_bad_json_witness:
  "scc_finding_slack_notifier example_cfg (example_world\<lparr>w_loads := \<lambda>s. Inl JSONDecodeError\<rparr>)
     (pubsub_event (py ''e30='')) =
   ([SecretAccess (py ''projects/sec-proj/secrets/slack-token/versions/latest''), LogEntry JSONDecodeError], Inr ())"
  using handler_bad_json [OF _ example_decode, of "example_world\<lparr>w_loads := \<lambda>s. Inl JSONDecodeError\<rparr>"
      example_cfg "py ''xoxb-1''" JSONDecodeError]
  by (simp add: example_world_def example_cfg_def secret_name_def fmt_opt_def)

text \<open>
  C19: an exception of \<open>merge_template\<close> (a finding without a field it needs)
  is caught by \<open>message_post\<close> and printed: nothing is posted and nothing is
  logged.
\<close>

theorem handler_merge_error:
  assumes "w_logging_client w = Inr ()" "decode_event ev = Inr msg" "w_secret_client w = Inr ()"
    "res_bind (w_secret w (latest_name cfg)) utf8_decode = Inr token"
    "w_loads w msg = Inr payload" "w_template w = Inr template"
    "merge_template template payload = Inl e"
  shows "scc_finding_slack_notifier cfg w ev = ([SecretAccess (latest_name cfg), PrintError e], Inr ())"
  using assms by (simp add: handler_unfold)

theorem handler_merge_error_witness:
  "scc_finding_slack_notifier example_cfg
      (example_world\<lparr>w_loads := \<lambda>s. Inr (example_payload (PDict [(KStr (py ''name''), PStr example_name)]))\<rparr>)
      (pubsub_event (py ''e30='')) =
    ([SecretAccess (py ''projects/sec-proj/secrets/slack-token/versions/latest''), PrintError TypeError], Inr ())"
proof -
  have mg: "merge_template example_template (example_payload (PDict [(KStr (py ''name''), PStr example_name)]))
      = Inl TypeError"
    by (simp add: example_defs merge_eval)
  show ?thesis
    using handler_merge_error [OF _ example_decode _ _ _ _ mg,
        of "example_world\<lparr>w_loads := \<lambda>s. Inr (example_payload (PDict [(KStr (py ''name''), PStr example_name)]))\<rparr>"
        example_cfg "py ''xoxb-1''"]
    by (simp add: example_world_def example_cfg_def secret_name_def fmt_opt_def)
qed

text \<open>
  C21: an event whose data is missing, is not base64 or is not UTF-8 results in exactly
  one log entry and nothing else; the run then returns what writing the log entry
  returns.
\<close>

theorem handler_decode_error:
  assumes "w_logging_client w = Inr ()" "decode_event ev = Inl e"
  shows "scc_finding_slack_notifier cfg w ev = ([LogEntry e], w_log w)"
  using assms by (simp add: handler_eq)

theorem handler_decode_error_witness:
  "scc_finding_slack_notifier example_cfg example_world (pubsub_event (py ''e30'')) =
     ([LogEntry BinasciiError], Inr ())"
  using handler_decode_error [of example_world "pubsub_event (py ''e30'')" BinasciiError example_cfg]
  by (simp add: example_world_def decode_event_def pubsub_event_def b64decode_def a2b_base64_def
      table_a2b_base64_def Let_def)

text \<open>
  C9: the entry point raises only when Cloud Logging fails: creating the logging client
  or writing the log entry. Every other exception is caught and printed or logged.
\<close>

theorem handler_crash_only_logging:
  "snd (scc_finding_slack_notifier cfg w ev) = Inl e \<Longrightarrow> w_logging_client w = Inl e \<or> w_log w = Inl e"
  by (auto simp: handler_eq split: sum.splits)

theorem handler_crash_only_logging_witness:
  "w_logging_client (example_world\<lparr>w_log := Inl GoogleAPIError\<rparr>) = Inl GoogleAPIError \<or>
   w_log (example_world\<lparr>w_log := Inl GoogleAPIError\<rparr>) = Inl GoogleAPIError"
proof (rule handler_crash_only_logging)
  show "snd (scc_finding_slack_notifier example_cfg (example_world\<lparr>w_log := Inl GoogleAPIError\<rparr>)
      (pubsub_event (py ''e30''))) = Inl GoogleAPIError"
    by (simp add: handler_eq example_world_def decode_event_def pubsub_event_def b64decode_def
        a2b_base64_def table_a2b_base64_def Let_def)
qed

lemma message_post_counts:
  "length (filter is_post (fst (message_post cfg w d))) \<le> 1 \<and>
   length (filter is_secret_access (fst (message_post cfg w d))) \<le> 1 \<and>
   length (filter is_report (fst (message_post cfg w d))) \<le> 1 \<and>
   (isl (snd (message_post cfg w d)) \<longrightarrow> filter is_report (fst (message_post cfg w d)) = [])"
  by (auto simp: message_post_eq post_body_eq split: sum.splits)

text \<open>
  C10: in every run the secret is requested at most once, at most one request is posted
  and at most one failure is reported (printed or logged).
\<close>

theorem handler_effects_bounded:
  "length (filter is_post (fst (scc_finding_slack_notifier cfg w ev))) \<le> 1 \<and>
   length (filter is_secret_access (fst (scc_finding_slack_notifier cfg w ev))) \<le> 1 \<and>
   length (filter is_report (fst (scc_finding_slack_notifier cfg w ev))) \<le> 1"
  using message_post_counts [of cfg w]
  by (auto simp: handler_eq split: sum.splits)

text \<open>
  C11: whatever the entry point posts is the pure core of the notifier: the URL of
  \<open>chat.postMessage\<close>, the bearer token read from the secret, and the body
  that \<open>slack_message\<close> computes from the template and the payload decoded
  from the event.
\<close>

theorem handler_posts_core:
  assumes "HttpPost u b h \<in> set (fst (scc_finding_slack_notifier cfg w ev))"
  shows "\<exists>msg payload template token. decode_event ev = Inr msg \<and> w_loads w msg = Inr payload \<and>
    w_template w = Inr template \<and> res_bind (w_secret w (latest_name cfg)) utf8_decode = Inr token \<and>
    u = slack_url \<and> h = slack_headers token \<and> slack_message cfg template payload = Inr b"
  using assms
  by (auto simp: handler_unfold slack_message_def res_bind_eq_Inr split: sum.splits)

theorem handler_posts_core_witness:
  "\<exists>b. HttpPost slack_url b (slack_headers (py ''xoxb-1'')) \<in>
      set (fst (scc_finding_slack_notifier example_cfg example_world (pubsub_event (py ''e30='')))) \<and>
    (\<exists>msg payload template token. decode_event (pubsub_event (py ''e30='')) = Inr msg \<and>
      w_loads example_world msg = Inr payload \<and> w_template example_world = Inr template \<and>
      res_bind (w_secret example_world (latest_name example_cfg)) utf8_decode = Inr token \<and>
      slack_url = slack_url \<and> slack_headers (py ''xoxb-1'') = slack_headers token \<and>
      slack_message example_cfg template payload = Inr b)"
proof -
  have "\<not> isl (merge_template example_template
          (example_payload (example_finding example_name (py ''OPEN_FIREWALL'') (py ''HIGH''))))"
    by (simp add: example_defs merge_eval)
  then obtain blocks where mg: "merge_template example_template
          (example_payload (example_finding example_name (py ''OPEN_FIREWALL'') (py ''HIGH''))) = Inr blocks"
    using Inr_of_not_isl by blast
  let ?b = "json_dumps (slack_params (SLACK_CHANNEL example_cfg) blocks)"
  have p: "HttpPost slack_url ?b (slack_headers (py ''xoxb-1'')) \<in>
      set (fst (scc_finding_slack_notifier example_cfg example_world (pubsub_event (py ''e30=''))))"
    using mg example_decode example_secret by (simp add: handler_unfold example_world_def)
  show ?thesis using p handler_posts_core [OF p] by blast
qed

text \<open>
  C22: the secret requested is \<open>projects/P/secrets/S/versions/latest\<close> for
  the configured project and secret id; an unset variable is written
  \<open>None\<close>.
\<close>

theorem handler_secret_name:
  assumes "w_logging_client w = Inr ()" "decode_event ev = Inr msg" "w_secret_client w = Inr ()"
  shows "hd (fst (scc_finding_slack_notifier cfg w ev)) =
    SecretAccess (py ''projects/'' @ fmt_opt (SECRET_PROJECT_ID cfg) @ py ''/secrets/''
                  @ fmt_opt (SECRET_ID cfg) @ py ''/versions/latest'')"
  using assms by (auto simp: handler_unfold secret_name_def split: sum.splits)

theorem handler_secret_name_witness:
  "hd (fst (scc_finding_slack_notifier (example_cfg\<lparr>SECRET_PROJECT_ID := None\<rparr>) example_world
      (pubsub_event (py ''e30='')))) = SecretAccess (py ''projects/None/secrets/slack-token/versions/latest'')"
  using handler_secret_name [OF _ example_decode, of example_world "example_cfg\<lparr>SECRET_PROJECT_ID := None\<rparr>"]
  by (simp add: example_world_def example_decode example_cfg_def fmt_opt_def)

text \<open>
  C20: a failure to create the Secret Manager client, to fetch the secret or to decode it
  as UTF-8 results in exactly one log entry and no request to the chat API.
\<close>

theorem handler_secret_error:
  assumes "w_logging_client w = Inr ()" "decode_event ev = Inr msg"
  shows "(w_secret_client w = Inl e \<longrightarrow> scc_finding_slack_notifier cfg w ev = ([LogEntry e], w_log w)) \<and>
    (w_secret_client w = Inr () \<longrightarrow> res_bind (w_secret w (latest_name cfg)) utf8_decode = Inl e \<longrightarrow>
       scc_finding_slack_notifier cfg w ev = ([SecretAccess (latest_name cfg), LogEntry e], w_log w))"
  using assms by (simp add: handler_unfold)

theorem handler_secret_error_witness:
  "scc_finding_slack_notifier example_cfg (example_world\<lparr>w_secret := \<lambda>n. Inr [255]\<rparr>) (pubsub_event (py ''e30='')) =
     ([SecretAccess (py ''projects/sec-proj/secrets/slack-token/versions/latest''), LogEntry UnicodeDecodeError], Inr ())"
  using handler_secret_error [OF _ example_decode, of "example_world\<lparr>w_secret := \<lambda>n. Inr [255]\<rparr>"
      UnicodeDecodeError example_cfg]
  by (simp add: example_world_def example_cfg_def secret_name_def fmt_opt_def)

lemma decode_event_data:
  "decode_event (pubsub_event d) = res_bind (b64decode d) utf8_decode"
  by (simp add: decode_event_def pubsub_event_def)

text \<open>
  C13: line 132 inverts what a publisher does: an event whose data is the base64 encoding
  of the UTF-8 encoding of a string of Unicode scalar values decodes to that string.
\<close>

theorem decode_event_roundtrip:
  "\<forall>c \<in> set s. scalar c \<Longrightarrow> decode_event (pubsub_event (b64_encode (utf8_encode s))) = Inr s"
  by (simp add: decode_event_data b64decode_b64_encode utf8_decode_encode)

theorem decode_event_roundtrip_witness:
  "decode_event (pubsub_event (b64_encode (utf8_encode [104, 233, 128512]))) = Inr [104, 233, 128512]"
  by (rule decode_event_roundtrip) (simp add: scalar_def)

text \<open>
  C14: line 132 succeeds exactly when the base64 data decodes to the UTF-8 encoding of a
  string of Unicode scalar values, and gives that string: no overlong form, surrogate or
  truncated sequence gets through.
\<close>

theorem decode_event_iff:
  "decode_event (pubsub_event d) = Inr s \<longleftrightarrow>
     (\<forall>c \<in> set s. scalar c) \<and> b64decode d = Inr (utf8_encode s)"
  by (cases "b64decode d") (auto simp: decode_event_data utf8_decode_iff)

theorem decode_event_iff_witness:
  "decode_event (pubsub_event (py ''w6k='')) = Inr [233]"
proof -
  have "b64decode (py ''w6k='') = Inr [195, 169]"
    by (simp add: b64decode_def a2b_base64_def table_a2b_base64_def Let_def)
  then show ?thesis
    using decode_event_iff [of "py ''w6k=''" "[233]"]
    by (simp add: scalar_def utf8_encode_def utf8_encode_char_def)
qed

lemma filter_map_of_nat:
  "filter P (map (of_nat :: nat \<Rightarrow> byte) d) = map of_nat (filter (\<lambda>c. P (of_nat c)) d)"
  by (induction d) auto

lemma byte_eq_61: "c < 256 \<Longrightarrow> (of_nat c :: byte) = 61 \<longleftrightarrow> c = 61"
proof
  assume "c < 256" "(of_nat c :: byte) = 61"
  then have "unat (of_nat c :: byte) = unat (61 :: byte)" by simp
  with \<open>c < 256\<close> show "c = 61" by (simp add: unat_of_nat)
qed simp

lemma b64decode_ascii:
  "\<forall>c \<in> set d. c < 128 \<Longrightarrow> b64decode d = a2b_loop (map of_nat d) 0 0 0"
  by (simp add: b64decode_def a2b_base64_def)

text \<open>
  C23: in event data of ASCII characters, the characters that are neither base64 digits
  nor the pad character (a line break, a space) do not change what line 132 decodes. The
  ASCII condition is needed: a non-ASCII character makes \<open>b64decode\<close> raise
  \<open>ValueError\<close> instead of being skipped.
\<close>

theorem decode_event_skips_junk:
  assumes a: "\<forall>c \<in> set d. c < 128"
  shows "decode_event (pubsub_event d) =
    decode_event (pubsub_event (filter (\<lambda>c. table_a2b_base64 (of_nat c) < 64 \<or> c = 61) d))"
proof -
  let ?P = "\<lambda>ch. table_a2b_base64 ch < 64 \<or> ch = (61 :: byte)"
  have f: "filter (\<lambda>c. ?P (of_nat c)) d = filter (\<lambda>c. table_a2b_base64 (of_nat c) < 64 \<or> c = 61) d"
    by (rule filter_cong) (use a byte_eq_61 in auto)
  have "b64decode d = a2b_loop (filter ?P (map of_nat d)) 0 0 0"
    using a by (simp only: b64decode_ascii a2b_skips_invalid [of "map of_nat d"])
  also have "\<dots> = b64decode (filter (\<lambda>c. table_a2b_base64 (of_nat c) < 64 \<or> c = 61) d)"
    using a by (subst b64decode_ascii) (simp_all only: filter_map_of_nat f, simp)
  finally show ?thesis by (simp only: decode_event_data)
qed

theorem decode_event_skips_junk_witness:
  "decode_event (pubsub_event [101, 51, 10, 48, 61]) = Inr (py ''{}'')"
  using decode_event_skips_junk [of "[101, 51, 10, 48, 61]"] example_decode
  by (simp add: table_a2b_base64_def)

lemma map_sum_eq_Inl: "map_sum id f r = Inl e \<longleftrightarrow> r = Inl e"
  by (cases r) auto

lemma a2b_loop_Inl: "a2b_loop s q l p = Inl e \<Longrightarrow> e = BinasciiError"
  by (induction s q l p rule: a2b_loop.induct) (auto simp: Let_def map_sum_eq_Inl split: if_splits)

text \<open>
  C24: base64 data without padding whose length is not a multiple of four makes line 132
  raise \<open>binascii.Error\<close>; the tail is never silently dropped.
\<close>

theorem decode_event_unpadded:
  assumes "\<forall>c \<in> set d. c < 128 \<and> table_a2b_base64 (of_nat c) < 64" "length d mod 4 \<noteq> 0"
  shows "decode_event (pubsub_event d) = Inl BinasciiError"
proof -
  have "isl (a2b_loop (map of_nat d) 0 0 0)"
    using a2b_unpadded_length [of 0 "map of_nat d"] assms by auto
  then obtain e where "a2b_loop (map of_nat d) 0 0 0 = Inl e" by (cases "a2b_loop (map of_nat d) 0 0 0") auto
  then show ?thesis using assms a2b_loop_Inl
    by (simp add: decode_event_data b64decode_ascii)
qed

theorem decode_event_unpadded_witness:
  "decode_event (pubsub_event (py ''e30'')) = Inl BinasciiError"
  by (rule decode_event_unpadded) (simp_all add: table_a2b_base64_def)

end
