(* ===== verification/JsonLoads.thy ===== *)
theory JsonLoads
  imports PyJson
begin

text \<open>
  \<open>json.loads(s)\<close> on a \<open>str\<close> with its default arguments, as CPython runs it:
  \<open>json.loads\<close> rejects a leading byte order mark, \<open>JSONDecoder.decode\<close> skips
  whitespace, calls the scanner and rejects anything but whitespace after the value, and
  the scanner is the C accelerator of \<open>Modules/_json.c\<close>: \<open>scan_once_unicode\<close>
  dispatching on the first character, \<open>scanstring_unicode\<close> in strict mode,
  \<open>_parse_array_unicode\<close>, \<open>_parse_object_unicode\<close> (a repeated key keeps its first
  position and takes the last value, as \<open>PyDict_SetItem\<close> does) and
  \<open>_match_number_unicode\<close>. Every failure is a \<open>JSONDecodeError\<close> (the scanner's
  \<open>StopIteration\<close> is turned into one by \<open>raw_decode\<close>). \<open>float(text)\<close> is the
  parameter \<open>fr\<close>, which gives the \<open>repr\<close> of the float a literal denotes (a value is
  kept as its \<open>repr\<close> by the model). The scanner works on the rest of the input
  instead of an index, and spends one unit of fuel per call; the lemmas show that the
  fuel given is always enough.
\<close>

subsection \<open>Characters\<close>

definition is_ws :: "nat \<Rightarrow> bool" where
  "is_ws c \<longleftrightarrow> c = 32 \<or> c = 9 \<or> c = 10 \<or> c = 13"

definition skip_ws :: "pystr \<Rightarrow> pystr" where
  "skip_ws s = dropWhile is_ws s"

definition is_digit :: "nat \<Rightarrow> bool" where
  "is_digit c \<longleftrightarrow> 48 \<le> c \<and> c \<le> 57"

text \<open>The value of a hexadecimal digit, and of a sequence of them (\<open>c <<= 4; c |= digit\<close>).\<close>

definition hex_val :: "nat \<Rightarrow> nat option" where
  "hex_val d =
     (if 48 \<le> d \<and> d \<le> 57 then Some (d - 48)
      else if 97 \<le> d \<and> d \<le> 102 then Some (d - 87)
      else if 65 \<le> d \<and> d \<le> 70 then Some (d - 55) else None)"

fun hex_acc :: "nat \<Rightarrow> pystr \<Rightarrow> nat option" where
  "hex_acc a [] = Some a"
| "hex_acc a (d # ds) = (case hex_val d of None \<Rightarrow> None | Some v \<Rightarrow> hex_acc (16 * a + v) ds)"

text \<open>The one-character escapes of \<open>scanstring_unicode\<close>.\<close>

definition simple_escape :: "nat \<Rightarrow> nat option" where
  "simple_escape e =
     (if e = 34 then Some 34 else if e = 92 then Some 92 else if e = 47 then Some 47
      else if e = 98 then Some 8 else if e = 102 then Some 12 else if e = 110 then Some 10
      else if e = 114 then Some 13 else if e = 116 then Some 9 else None)"

definition high_surrogate :: "nat \<Rightarrow> bool" where
  "high_surrogate c \<longleftrightarrow> 55296 \<le> c \<and> c \<le> 56319"

definition low_surrogate :: "nat \<Rightarrow> bool" where
  "low_surrogate c \<longleftrightarrow> 56320 \<le> c \<and> c \<le> 57343"

text \<open>\<open>Py_UNICODE_JOIN_SURROGATES\<close> on a high and a low surrogate.\<close>

definition join_surrogates :: "nat \<Rightarrow> nat \<Rightarrow> nat" where
  "join_surrogates hi lo = 65536 + (hi - 55296) * 1024 + (lo - 56320)"

subsection \<open>Strings\<close>

text \<open>
  \<open>scanstring_unicode(s, end, strict=True)\<close>, called after the opening quote: the
  string's characters and the input after the closing quote. A control character, an
  unknown escape, a \<open>\u\<close> escape without four hexadecimal digits and one more character
  after them, and an unterminated string are errors. A high surrogate escape followed by
  a low one (with room for one more character after it) is joined into one code point;
  otherwise each escape gives its own code point.
\<close>

function scan_string :: "pystr \<Rightarrow> (pystr \<times> pystr) res" where
  "scan_string [] = Inl JSONDecodeError"
| "scan_string (c # s) =
     (if c = 34 then Inr ([], s)
      else if c = 92 then
        (case s of
           [] \<Rightarrow> Inl JSONDecodeError
         | e # s' \<Rightarrow>
             if e \<noteq> 117 then
               (case simple_escape e of
                  None \<Rightarrow> Inl JSONDecodeError
                | Some ch \<Rightarrow> map_sum id (apfst (Cons ch)) (scan_string s'))
             else if length s' \<le> 4 then Inl JSONDecodeError
             else
               (case hex_acc 0 (take 4 s') of
                  None \<Rightarrow> Inl JSONDecodeError
                | Some u \<Rightarrow>
                    if high_surrogate u \<and> 6 < length (drop 4 s') \<and> drop 4 s' ! 0 = 92
                       \<and> drop 4 s' ! 1 = 117 then
                      (case hex_acc 0 (take 4 (drop 6 s')) of
                         None \<Rightarrow> Inl JSONDecodeError
                       | Some u2 \<Rightarrow>
                           if low_surrogate u2
                           then map_sum id (apfst (Cons (join_surrogates u u2))) (scan_string (drop 10 s'))
                           else map_sum id (apfst (Cons u)) (scan_string (drop 4 s')))
                    else map_sum id (apfst (Cons u)) (scan_string (drop 4 s'))))
      else if c \<le> 31 then Inl JSONDecodeError
      else map_sum id (apfst (Cons c)) (scan_string s))"
  by pat_completeness auto
termination
  by (relation "measure length") auto

subsection \<open>Numbers\<close>

text \<open>
  \<open>_match_number_unicode\<close>: an optional minus sign, an integer part (\<open>0\<close> or a
  non-zero digit and more digits), a fraction (\<open>.\<close> and at least one digit) and an
  exponent (\<open>e\<close> or \<open>E\<close>, an optional sign, at least one digit); a fraction or
  exponent that is not complete is not part of the number. The result is the text of the
  three parts and the rest of the input.
\<close>

definition scan_int :: "pystr \<Rightarrow> (pystr \<times> pystr) option" where
  "scan_int s =
     (case s of
        [] \<Rightarrow> None
      | d # r \<Rightarrow>
          if d = 48 then Some ([48], r)
          else if 49 \<le> d \<and> d \<le> 57 then Some (d # takeWhile is_digit r, dropWhile is_digit r)
          else None)"

definition scan_frac :: "pystr \<Rightarrow> pystr \<times> pystr" where
  "scan_frac s =
     (case s of
        p # d # r \<Rightarrow>
          if p = 46 \<and> is_digit d then (p # d # takeWhile is_digit r, dropWhile is_digit r)
          else ([], s)
      | _ \<Rightarrow> ([], s))"

definition scan_exp :: "pystr \<Rightarrow> pystr \<times> pystr" where
  "scan_exp s =
     (case s of
        [] \<Rightarrow> ([], s)
      | e # r \<Rightarrow>
          if e = 101 \<or> e = 69 then
            (let (sg, r') = (case r of
                               c # r'' \<Rightarrow> if c = 43 \<or> c = 45 then ([c], r'') else ([], r)
                             | [] \<Rightarrow> ([], r));
                 ds = takeWhile is_digit r'
             in if ds = [] then ([], s) else (e # sg @ ds, dropWhile is_digit r'))
          else ([], s))"

definition match_number :: "pystr \<Rightarrow> (pystr \<times> pystr \<times> pystr \<times> pystr) option" where
  "match_number s =
     (let (sg, s1) = (if s \<noteq> [] \<and> hd s = 45 then ([45], tl s) else ([], s)) in
      case scan_int s1 of
        None \<Rightarrow> None
      | Some (ip, s2) \<Rightarrow>
          (case scan_frac s2 of (fp, s3) \<Rightarrow>
           case scan_exp s3 of (ep, s4) \<Rightarrow> Some (sg @ ip, fp, ep, s4)))"

text \<open>\<open>PyLong_FromString(numstr, NULL, 10)\<close> on a matched integer.\<close>

definition dec_val :: "pystr \<Rightarrow> nat" where
  "dec_val ds = foldl (\<lambda>a d. 10 * a + (d - 48)) 0 ds"

definition int_of_dec :: "pystr \<Rightarrow> int" where
  "int_of_dec s = (if s \<noteq> [] \<and> hd s = 45 then - int (dec_val (tl s)) else int (dec_val s))"

text \<open>A number with a fraction or an exponent is a float, any other an int.\<close>

definition number_value :: "(pystr \<Rightarrow> pystr) \<Rightarrow> pystr \<Rightarrow> pystr \<Rightarrow> pystr \<Rightarrow> pyval" where
  "number_value fr ip fp ep =
     (if fp = [] \<and> ep = [] then PInt (int_of_dec ip) else PFloat (fr (ip @ fp @ ep)))"

text \<open>
  The cases of \<open>scan_once_unicode\<close> that do not recurse: the constants \<open>null\<close>,
  \<open>true\<close>, \<open>false\<close>, \<open>NaN\<close>, \<open>Infinity\<close> and \<open>-Infinity\<close> (the last three through
  the default \<open>parse_constant\<close>, \<open>float('nan')\<close> and so on), and otherwise a number.
\<close>

definition scan_literal :: "(pystr \<Rightarrow> pystr) \<Rightarrow> pystr \<Rightarrow> (pyval \<times> pystr) res" where
  "scan_literal fr s =
     (if take 4 s = py ''null'' then Inr (PNone, drop 4 s)
      else if take 4 s = py ''true'' then Inr (PBool True, drop 4 s)
      else if take 5 s = py ''false'' then Inr (PBool False, drop 5 s)
      else if take 3 s = py ''NaN'' then Inr (PFloat (py ''nan''), drop 3 s)
      else if take 8 s = py ''Infinity'' then Inr (PFloat (py ''inf''), drop 8 s)
      else if take 9 s = py ''-Infinity'' then Inr (PFloat (py ''-inf''), drop 9 s)
      else
        (case match_number s of
           None \<Rightarrow> Inl JSONDecodeError
         | Some (ip, fp, ep, r) \<Rightarrow> Inr (number_value fr ip fp ep, r)))"

subsection \<open>The scanner\<close>

text \<open>
  \<open>scan_once_unicode\<close> on the rest of the input, and the loops of
  \<open>_parse_array_unicode\<close> and \<open>_parse_object_unicode\<close> after the first element (or
  key), with the elements read so far. \<open>None\<close> is "out of fuel".
\<close>

fun scan_once :: "(pystr \<Rightarrow> pystr) \<Rightarrow> nat \<Rightarrow> pystr \<Rightarrow> (pyval \<times> pystr) res option"
and scan_array :: "(pystr \<Rightarrow> pystr) \<Rightarrow> nat \<Rightarrow> pyval list \<Rightarrow> pystr \<Rightarrow> (pyval \<times> pystr) res option"
and scan_object :: "(pystr \<Rightarrow> pystr) \<Rightarrow> nat \<Rightarrow> (pykey \<times> pyval) list \<Rightarrow> pystr \<Rightarrow>
      (pyval \<times> pystr) res option" where
  "scan_once fr 0 s = None"
| "scan_once fr (Suc n) s =
     (case s of
        [] \<Rightarrow> Some (Inl JSONDecodeError)
      | c # r \<Rightarrow>
          if c = 34 then Some (map_sum id (apfst PStr) (scan_string r))
          else if c = 123 then
            (let r' = skip_ws r in
             if r' \<noteq> [] \<and> hd r' = 125 then Some (Inr (PDict [], tl r'))
             else scan_object fr n [] r')
          else if c = 91 then
            (let r' = skip_ws r in
             if r' \<noteq> [] \<and> hd r' = 93 then Some (Inr (PList [], tl r'))
             else scan_array fr n [] r')
          else Some (scan_literal fr s))"
| "scan_array fr 0 acc s = None"
| "scan_array fr (Suc n) acc s =
     (case scan_once fr n s of
        None \<Rightarrow> None
      | Some (Inl e) \<Rightarrow> Some (Inl e)
      | Some (Inr (v, r)) \<Rightarrow>
          (let r' = skip_ws r in
           if r' \<noteq> [] \<and> hd r' = 93 then Some (Inr (PList (acc @ [v]), tl r'))
           else if r' \<noteq> [] \<and> hd r' = 44 then scan_array fr n (acc @ [v]) (skip_ws (tl r'))
           else Some (Inl JSONDecodeError)))"
| "scan_object fr 0 acc s = None"
| "scan_object fr (Suc n) acc s =
     (if s = [] \<or> hd s \<noteq> 34 then Some (Inl JSONDecodeError)
      else
        (case scan_string (tl s) of
           Inl e \<Rightarrow> Some (Inl e)
         | Inr (k, r) \<Rightarrow>
             (let r1 = skip_ws r in
              if r1 = [] \<or> hd r1 \<noteq> 58 then Some (Inl JSONDecodeError)
              else
                (case scan_once fr n (skip_ws (tl r1)) of
                   None \<Rightarrow> None
                 | Some (Inl e) \<Rightarrow> Some (Inl e)
                 | Some (Inr (v, r2)) \<Rightarrow>
                     (let acc' = dict_set acc (KStr k) v; r3 = skip_ws r2 in
                      if r3 \<noteq> [] \<and> hd r3 = 125 then Some (Inr (PDict acc', tl r3))
                      else if r3 \<noteq> [] \<and> hd r3 = 44 then scan_object fr n acc' (skip_ws (tl r3))
                      else Some (Inl JSONDecodeError))))))"

text \<open>
  \<open>json.loads\<close>: a leading U+FEFF is rejected; \<open>decode\<close> starts the scanner after
  leading whitespace and accepts only whitespace after the value. The fuel
  \<open>2 * length s + 1\<close> is enough, as the lemmas below show.
\<close>

definition json_fuel :: "pystr \<Rightarrow> nat" where
  "json_fuel s = 2 * length s + 1"

definition json_decode :: "(pystr \<Rightarrow> pystr) \<Rightarrow> pystr \<Rightarrow> pyval res option" where
  "json_decode fr s =
     (if s \<noteq> [] \<and> hd s = 65279 then Some (Inl JSONDecodeError)
      else
        (case scan_once fr (json_fuel s) (skip_ws s) of
           None \<Rightarrow> None
         | Some (Inl e) \<Rightarrow> Some (Inl e)
         | Some (Inr (v, r)) \<Rightarrow> Some (if skip_ws r = [] then Inr v else Inl JSONDecodeError)))"

definition json_loads :: "(pystr \<Rightarrow> pystr) \<Rightarrow> pystr \<Rightarrow> pyval res" where
  "json_loads fr s = (case json_decode fr s of Some r \<Rightarrow> r | None \<Rightarrow> Inl JSONDecodeError)"

subsection \<open>What json.loads returns\<close>

text \<open>
  A value whose dict keys are all strings, and one that is well formed with string keys:
  the values \<open>json.loads\<close> can return.
\<close>

fun str_keyed :: "pyval \<Rightarrow> bool" where
  "str_keyed (PList xs) = list_all str_keyed xs"
| "str_keyed (PDict kvs) = list_all (\<lambda>(k, v). is_kstr k \<and> str_keyed v) kvs"
| "str_keyed v = True"

definition loaded :: "pyval \<Rightarrow> bool" where
  "loaded v \<longleftrightarrow> wf_json v \<and> str_keyed v"


subsection \<open>The scanner consumes its input, and the fuel is enough\<close>

text \<open>
  Each successful call of the scanner returns a rest strictly shorter than its input, so
  a fuel of twice the length of the input plus one is never exhausted; more fuel never
  changes a result.
\<close>

lemma skip_ws_length: "length (skip_ws s) \<le> length s"
  by (simp add: skip_ws_def length_dropWhile_le)

lemma map_sum_id_Inr [simp]: "map_sum id f x = Inr y \<longleftrightarrow> (\<exists>z. x = Inr z \<and> y = f z)"
  by (cases x) auto

lemma map_sum_id_Inl [simp]: "map_sum id f x = Inl e \<longleftrightarrow> x = Inl e"
  by (cases x) auto

lemma scan_string_shorter: "scan_string s = Inr p \<Longrightarrow> length (snd p) < length s"
proof (induction s arbitrary: p rule: scan_string.induct)
  case (2 c s)
  show ?case
  proof (cases "c = 34 \<or> c \<noteq> 92")
    case True
    with "2.prems" "2.IH"(5) show ?thesis by (auto split: if_splits)
  next
    case False
    then obtain e s' where s: "s = e # s'" "c = 92" using "2.prems" by (cases s) auto
    show ?thesis
      using "2.prems" "2.IH"(1-4) unfolding s
      by (auto split: if_splits option.splits) force+
  qed
qed simp

lemma scan_int_split: "scan_int s = Some (ip, r) \<Longrightarrow> s = ip @ r \<and> ip \<noteq> []"
  by (auto simp: scan_int_def split: list.splits if_splits)

lemma scan_frac_split: "scan_frac s = (fp, r) \<Longrightarrow> s = fp @ r"
  by (auto simp: scan_frac_def split: list.splits if_splits)

lemma scan_exp_split: "scan_exp s = (ep, r) \<Longrightarrow> s = ep @ r"
  by (auto simp: scan_exp_def Let_def split: list.splits if_splits)

lemma match_number_split:
  "match_number s = Some (ip, fp, ep, r) \<Longrightarrow> s = ip @ fp @ ep @ r \<and> ip \<noteq> []"
  unfolding match_number_def
  by (cases s) (auto split: option.splits prod.splits if_splits dest!: scan_int_split scan_frac_split scan_exp_split)

lemma skip_ws_tl_length: "skip_ws r \<noteq> [] \<Longrightarrow> length (tl (skip_ws r)) < length r"
  using skip_ws_length [of r] by (cases "skip_ws r") auto

lemma take_Cons_drop: "take k s = x # xs \<Longrightarrow> length (drop k s) < length s"
  by (cases s; cases k) auto

lemma scan_literal_shorter: "scan_literal fr s = Inr (v, r) \<Longrightarrow> length r < length s"
  unfolding scan_literal_def
  by (auto split: if_splits option.splits dest!: match_number_split take_Cons_drop)

lemma scan_consumes:
  "scan_once fr n s = Some (Inr (v, r)) \<Longrightarrow> length r < length s"
  "scan_array fr n acc s = Some (Inr (v, r)) \<Longrightarrow> length r < length s"
  "scan_object fr n kvs s = Some (Inr (v, r)) \<Longrightarrow> length r < length s"
proof (induction fr n s and fr n acc s and fr n kvs s arbitrary: v r and v r and v r
    rule: scan_once_scan_array_scan_object.induct)
  case (2 fr n s)
  then obtain c t where s: "s = c # t" by (cases s) auto
  consider "c = 34" | "c = 123" | "c = 91" | "c \<noteq> 34" "c \<noteq> 123" "c \<noteq> 91" by blast
  then show ?case
  proof cases
    case 1
    with 2 s show ?thesis by (auto dest!: scan_string_shorter)
  next
    case 2
    with "2.prems" "2.IH"(1) s show ?thesis
      using skip_ws_length [of t] skip_ws_tl_length [of t] by (fastforce simp: Let_def split: if_splits)
  next
    case 3
    with "2.prems" "2.IH"(2) s show ?thesis
      using skip_ws_length [of t] skip_ws_tl_length [of t] by (fastforce simp: Let_def split: if_splits)
  next
    case 4
    with "2.prems" s show ?thesis by (auto dest: scan_literal_shorter)
  qed
next
  case (4 fr n acc s)
  from "4.prems" obtain v0 r0 where sc: "scan_once fr n s = Some (Inr (v0, r0))"
    by (auto split: option.splits sum.splits)
  with "4.IH"(1) have l0: "length r0 < length s" by blast
  define r' where "r' = skip_ws r0"
  have l1: "r' \<noteq> [] \<Longrightarrow> length (tl r') < length s"
    using l0 skip_ws_tl_length [of r0] unfolding r'_def by simp
  have eq: "scan_array fr (Suc n) acc s =
      (if r' \<noteq> [] \<and> hd r' = 93 then Some (Inr (PList (acc @ [v0]), tl r'))
       else if r' \<noteq> [] \<and> hd r' = 44 then scan_array fr n (acc @ [v0]) (skip_ws (tl r'))
       else Some (Inl JSONDecodeError))"
    by (simp add: sc r'_def Let_def)
  show ?case
  proof (cases "r' \<noteq> [] \<and> hd r' = 93")
    case True
    with "4.prems" eq l1 show ?thesis by auto
  next
    case False
    with "4.prems" eq have c: "r' \<noteq> [] \<and> hd r' = 44"
      and rec: "scan_array fr n (acc @ [v0]) (skip_ws (tl r')) = Some (Inr (v, r))"
      by (auto split: if_splits)
    have "length r < length (skip_ws (tl r'))"
      using "4.IH"(2) [OF sc refl refl, of r'] r'_def False c rec by simp
    with l1 c skip_ws_length [of "tl r'"] show ?thesis by simp
  qed
next
  case (6 fr n kvs s)
  from "6.prems" have s: "s \<noteq> [] \<and> hd s = 34" by (auto split: if_splits)
  with "6.prems" obtain k r0 where ss: "scan_string (tl s) = Inr (k, r0)"
    by (auto split: sum.splits)
  with s have l0: "length r0 < length s"
    using scan_string_shorter [OF ss] by (cases s) auto
  define r1 where "r1 = skip_ws r0"
  from "6.prems" s ss have c1: "r1 \<noteq> [] \<and> hd r1 = 58"
    by (auto simp: r1_def Let_def split: if_splits)
  have l1: "length (skip_ws (tl r1)) < length s"
    using l0 c1 skip_ws_tl_length [of r0] skip_ws_length [of "tl r1"] unfolding r1_def by simp
  from "6.prems" s ss c1 obtain v0 r2 where sc: "scan_once fr n (skip_ws (tl r1)) = Some (Inr (v0, r2))"
    by (auto simp: r1_def Let_def split: option.splits sum.splits)
  have l2: "length r2 < length s"
    using "6.IH"(1) s ss r1_def c1 sc l1 by fastforce
  define r3 where "r3 = skip_ws r2"
  define acc' where "acc' = dict_set kvs (KStr k) v0"
  have l3: "r3 \<noteq> [] \<Longrightarrow> length (tl r3) < length s"
    using l2 skip_ws_tl_length [of r2] unfolding r3_def by simp
  have eq: "scan_object fr (Suc n) kvs s =
      (if r3 \<noteq> [] \<and> hd r3 = 125 then Some (Inr (PDict acc', tl r3))
       else if r3 \<noteq> [] \<and> hd r3 = 44 then scan_object fr n acc' (skip_ws (tl r3))
       else Some (Inl JSONDecodeError))"
    using s c1 by (simp add: ss sc r1_def [symmetric] r3_def acc'_def Let_def)
  show ?case
  proof (cases "r3 \<noteq> [] \<and> hd r3 = 125")
    case True
    with "6.prems" eq l3 show ?thesis by auto
  next
    case False
    with "6.prems" eq have c: "r3 \<noteq> [] \<and> hd r3 = 44"
      and rec: "scan_object fr n acc' (skip_ws (tl r3)) = Some (Inr (v, r))"
      by (auto split: if_splits)
    have "length r < length (skip_ws (tl r3))"
      using "6.IH"(2) s ss r1_def c1 sc r3_def acc'_def False c rec by fastforce
    with l3 c skip_ws_length [of "tl r3"] show ?thesis by simp
  qed
qed simp_all

lemma scan_fuel_enough:
  "2 * length s < n \<Longrightarrow> scan_once fr n s \<noteq> None"
  "2 * length s + 1 < n \<Longrightarrow> scan_array fr n acc s \<noteq> None"
  "2 * length s + 1 < n \<Longrightarrow> scan_object fr n kvs s \<noteq> None"
proof (induction fr n s and fr n acc s and fr n kvs s rule: scan_once_scan_array_scan_object.induct)
  case (2 fr n s)
  show ?case
  proof (cases s)
    case (Cons c t)
    have "2 * length (skip_ws t) + 1 < n"
      using "2.prems" skip_ws_length [of t] Cons by simp
    with "2.IH" Cons show ?thesis by (auto simp: Let_def)
  qed simp
next
  case (4 fr n acc s)
  then have "scan_once fr n s \<noteq> None" by simp
  then obtain res where sc: "scan_once fr n s = Some res" by blast
  show ?case
  proof (cases res)
    case (Inr p)
    obtain v0 r0 where p: "p = (v0, r0)" by fastforce
    with sc Inr have l0: "length r0 < length s" by (auto dest: scan_consumes(1))
    define r' where "r' = skip_ws r0"
    have "r' \<noteq> [] \<Longrightarrow> 2 * length (skip_ws (tl r')) + 1 < n"
      using "4.prems" l0 skip_ws_tl_length [of r0] skip_ws_length [of "tl r'"] unfolding r'_def by simp
    then show ?thesis
      using "4.IH"(2) [OF sc Inr p [symmetric] r'_def] by (auto simp: sc Inr p r'_def [symmetric] Let_def)
  qed (simp add: sc)
next
  case (6 fr n kvs s)
  show ?case
  proof (cases "s = [] \<or> hd s \<noteq> 34")
    case False
    show ?thesis
    proof (cases "scan_string (tl s)")
      case (Inr p)
      obtain k r0 where p: "p = (k, r0)" by fastforce
      have l0: "length r0 < length s"
        using scan_string_shorter [of "tl s" p] Inr p False by (cases s) auto
      define r1 where "r1 = skip_ws r0"
      show ?thesis
      proof (cases "r1 = [] \<or> hd r1 \<noteq> 58")
        case c1: False
        have l1: "2 * length (skip_ws (tl r1)) < n"
          using "6.prems" l0 c1 skip_ws_tl_length [of r0] skip_ws_length [of "tl r1"]
          unfolding r1_def by simp
        then obtain res where sc: "scan_once fr n (skip_ws (tl r1)) = Some res"
          using "6.IH"(1) [OF False Inr p [symmetric] r1_def c1] by blast
        show ?thesis
        proof (cases res)
          case (Inr q)
          obtain v0 r2 where q: "q = (v0, r2)" by fastforce
          with sc Inr have l2: "length r2 < length s"
            using scan_consumes(1) [of fr n "skip_ws (tl r1)" v0 r2] l1 l0 c1
              skip_ws_tl_length [of r0] skip_ws_length [of "tl r1"] unfolding r1_def by simp
          define r3 where "r3 = skip_ws r2"
          have "r3 \<noteq> [] \<Longrightarrow> 2 * length (skip_ws (tl r3)) + 1 < n"
            using "6.prems" l2 skip_ws_tl_length [of r2] skip_ws_length [of "tl r3"] unfolding r3_def by simp
          then show ?thesis
            using "6.IH"(2) [OF False \<open>scan_string (tl s) = Inr p\<close> p [symmetric] r1_def c1 sc Inr q [symmetric] _ r3_def]
            using False c1
            by (auto simp: \<open>scan_string (tl s) = Inr p\<close> p r1_def [symmetric] sc Inr q r3_def [symmetric] Let_def)
        qed (use False c1 in \<open>simp add: \<open>scan_string (tl s) = Inr p\<close> p r1_def [symmetric] sc Let_def\<close>)
      qed (use False in \<open>simp add: Inr p r1_def [symmetric] Let_def\<close>)
    qed (use False in simp)
  qed auto
qed simp_all

lemma scan_fuel_mono:
  "scan_once fr n s = Some x \<Longrightarrow> n \<le> m \<Longrightarrow> scan_once fr m s = Some x"
  "scan_array fr n acc s = Some x \<Longrightarrow> n \<le> m \<Longrightarrow> scan_array fr m acc s = Some x"
  "scan_object fr n kvs s = Some x \<Longrightarrow> n \<le> m \<Longrightarrow> scan_object fr m kvs s = Some x"
proof (induction fr n s and fr n acc s and fr n kvs s arbitrary: m x and m x and m x
    rule: scan_once_scan_array_scan_object.induct)
  case (2 fr n s)
  from "2.prems" obtain m' where m: "m = Suc m'" "n \<le> m'" by (cases m) auto
  show ?case
  proof (cases s)
    case (Cons c t)
    consider "c = 123" | "c = 91" | "c \<noteq> 123" "c \<noteq> 91" by blast
    then show ?thesis
    proof cases
      case 1
      show ?thesis
      proof (cases "skip_ws t \<noteq> [] \<and> hd (skip_ws t) = 125")
        case False
        with "2.prems" Cons 1 have "scan_object fr n [] (skip_ws t) = Some x" by (simp add: Let_def)
        with "2.IH"(1) [OF Cons _ 1 refl False] m(2) 1
        have "scan_object fr m' [] (skip_ws t) = Some x" by simp
        with False Cons 1 m(1) show ?thesis by (auto simp: Let_def)
      qed (use "2.prems" Cons 1 m in \<open>simp add: Let_def\<close>)
    next
      case 2
      show ?thesis
      proof (cases "skip_ws t \<noteq> [] \<and> hd (skip_ws t) = 93")
        case False
        with "2.prems" Cons 2 have "scan_array fr n [] (skip_ws t) = Some x" by (simp add: Let_def)
        with "2.IH"(2) [OF Cons _ _ 2 refl False] m(2) 2
        have "scan_array fr m' [] (skip_ws t) = Some x" by simp
        with False Cons 2 m(1) show ?thesis by (auto simp: Let_def)
      qed (use "2.prems" Cons 2 m in \<open>simp add: Let_def\<close>)
    next
      case 3
      with "2.prems" m Cons show ?thesis by (auto split: if_splits)
    qed
  qed (use "2.prems" m in simp)
next
  case (4 fr n acc s)
  from "4.prems" obtain m' where m: "m = Suc m'" "n \<le> m'" by (cases m) auto
  from "4.prems" obtain res where sc: "scan_once fr n s = Some res" by (auto split: option.splits)
  have sc': "scan_once fr m' s = Some res" by (rule "4.IH"(1) [OF sc m(2)])
  show ?case
  proof (cases res)
    case (Inr p)
    obtain v0 r0 where p: "p = (v0, r0)" by fastforce
    define r' where "r' = skip_ws r0"
    have eq: "\<And>k. scan_once fr k s = Some res \<Longrightarrow> scan_array fr (Suc k) acc s =
      (if r' \<noteq> [] \<and> hd r' = 93 then Some (Inr (PList (acc @ [v0]), tl r'))
       else if r' \<noteq> [] \<and> hd r' = 44 then scan_array fr k (acc @ [v0]) (skip_ws (tl r'))
       else Some (Inl JSONDecodeError))"
      by (simp add: Inr p r'_def Let_def)
    show ?thesis
    proof (cases "\<not> (r' \<noteq> [] \<and> hd r' = 93) \<and> r' \<noteq> [] \<and> hd r' = 44")
      case True
      with "4.prems" eq [OF sc] have "scan_array fr n (acc @ [v0]) (skip_ws (tl r')) = Some x" by simp
      from "4.IH"(2) [OF sc Inr p [symmetric] r'_def _ _ this m(2)] True
      have "scan_array fr m' (acc @ [v0]) (skip_ws (tl r')) = Some x" by simp
      with True eq [OF sc'] m(1) show ?thesis by simp
    next
      case False
      with "4.prems" eq [OF sc] eq [OF sc'] m(1) show ?thesis by (auto split: if_splits)
    qed
  qed (use "4.prems" sc sc' m in auto)
next
  case (6 fr n kvs s)
  from "6.prems" obtain m' where m: "m = Suc m'" "n \<le> m'" by (cases m) auto
  show ?case
  proof (cases "s = [] \<or> hd s \<noteq> 34")
    case False
    show ?thesis
    proof (cases "scan_string (tl s)")
      case ss: (Inr p)
      obtain k r0 where p: "p = (k, r0)" by fastforce
      define r1 where "r1 = skip_ws r0"
      show ?thesis
      proof (cases "r1 = [] \<or> hd r1 \<noteq> 58")
        case c1: False
        from "6.prems" False ss p c1 obtain res
          where sc: "scan_once fr n (skip_ws (tl r1)) = Some res"
          by (auto simp: r1_def Let_def split: option.splits)
        have sc': "scan_once fr m' (skip_ws (tl r1)) = Some res"
          by (rule "6.IH"(1) [OF False ss p [symmetric] r1_def c1 sc m(2)])
        show ?thesis
        proof (cases res)
          case (Inr q)
          obtain v0 r2 where q: "q = (v0, r2)" by fastforce
          define r3 where "r3 = skip_ws r2"
          define acc' where "acc' = dict_set kvs (KStr k) v0"
          have eq: "\<And>j. scan_once fr j (skip_ws (tl r1)) = Some res \<Longrightarrow> scan_object fr (Suc j) kvs s =
              (if r3 \<noteq> [] \<and> hd r3 = 125 then Some (Inr (PDict acc', tl r3))
               else if r3 \<noteq> [] \<and> hd r3 = 44 then scan_object fr j acc' (skip_ws (tl r3))
               else Some (Inl JSONDecodeError))"
            using False c1 by (simp add: ss p r1_def [symmetric] Inr q r3_def acc'_def Let_def)
          show ?thesis
          proof (cases "\<not> (r3 \<noteq> [] \<and> hd r3 = 125) \<and> r3 \<noteq> [] \<and> hd r3 = 44")
            case True
            with "6.prems" eq [OF sc] have "scan_object fr n acc' (skip_ws (tl r3)) = Some x" by simp
            from "6.IH"(2) [OF False ss p [symmetric] r1_def c1 sc Inr q [symmetric] acc'_def r3_def _ _ this m(2)] True
            have "scan_object fr m' acc' (skip_ws (tl r3)) = Some x" by simp
            with True eq [OF sc'] m(1) show ?thesis by simp
          next
            case False
            with "6.prems" eq [OF sc] eq [OF sc'] m(1) show ?thesis by (auto split: if_splits)
          qed
        qed (use "6.prems" False c1 sc sc' m in \<open>auto simp: ss p r1_def [symmetric] Let_def\<close>)
      qed (use "6.prems" False m in \<open>simp add: ss p r1_def [symmetric] Let_def\<close>)
    qed (use "6.prems" False m in simp)
  qed (use "6.prems" m in auto)
qed simp_all

lemma scan_once_det: "scan_once fr n s = Some x \<Longrightarrow> scan_once fr m s = Some y \<Longrightarrow> x = y"
  using scan_fuel_mono(1) [of fr n s x "max n m"] scan_fuel_mono(1) [of fr m s y "max n m"] by simp

lemma scan_json_fuel: "scan_once fr (json_fuel s) (skip_ws s) \<noteq> None"
proof -
  have "2 * length (skip_ws s) < json_fuel s"
    using skip_ws_length [of s] by (simp add: json_fuel_def)
  then show ?thesis by (rule scan_fuel_enough(1))
qed

lemma json_decode_loads: "json_decode fr s = Some (json_loads fr s)"
  using scan_json_fuel [of fr s]
  by (auto simp: json_loads_def json_decode_def split: option.splits sum.splits)


subsection \<open>The values json.loads returns\<close>

lemma dict_set_keys:
  "map fst (dict_set kvs k v) = (if k \<in> fst ` set kvs then map fst kvs else map fst kvs @ [k])"
  by (induction kvs) (auto simp: dict_set_def)

lemma dict_set_all: "list_all P kvs \<Longrightarrow> P (k, v) \<Longrightarrow> list_all P (dict_set kvs k v)"
  unfolding dict_set_def list_all_iff by auto

lemma loaded_dict:
  "loaded (PDict kvs) \<longleftrightarrow> distinct (map fst kvs) \<and> list_all (\<lambda>(k, v). is_kstr k \<and> loaded v) kvs"
  by (induction kvs) (auto simp: loaded_def)

lemma loaded_list: "loaded (PList xs) \<longleftrightarrow> list_all loaded xs"
  by (induction xs) (auto simp: loaded_def)

lemma loaded_dict_set:
  "loaded (PDict kvs) \<Longrightarrow> loaded v \<Longrightarrow> loaded (PDict (dict_set kvs (KStr k) v))"
  unfolding loaded_dict by (auto simp: dict_set_keys intro: dict_set_all)

lemma scan_literal_loaded: "scan_literal fr s = Inr (v, r) \<Longrightarrow> loaded v"
  by (auto simp: scan_literal_def number_value_def loaded_def split: if_splits option.splits)

lemma scan_loaded:
  "scan_once fr n s = Some (Inr (v, r)) \<Longrightarrow> loaded v"
  "scan_array fr n acc s = Some (Inr (v, r)) \<Longrightarrow> list_all loaded acc \<Longrightarrow> loaded v"
  "scan_object fr n kvs s = Some (Inr (v, r)) \<Longrightarrow> loaded (PDict kvs) \<Longrightarrow> loaded v"
proof (induction fr n s and fr n acc s and fr n kvs s arbitrary: v r and v r and v r
    rule: scan_once_scan_array_scan_object.induct)
  case (2 fr n s)
  then obtain c t where s: "s = c # t" by (cases s) auto
  consider "c = 34" | "c = 123" | "c = 91" | "c \<noteq> 34" "c \<noteq> 123" "c \<noteq> 91" by blast
  then show ?case
  proof cases
    case 1
    with "2.prems" s show ?thesis by (auto simp: loaded_def)
  next
    case 2
    show ?thesis
    proof (cases "skip_ws t \<noteq> [] \<and> hd (skip_ws t) = 125")
      case False
      with "2.prems" s 2 have "scan_object fr n [] (skip_ws t) = Some (Inr (v, r))" by (simp add: Let_def)
      with "2.IH"(1) [OF s _ 2 refl False] 2 show ?thesis by (simp add: loaded_def)
    qed (use "2.prems" s 2 in \<open>auto simp: loaded_def\<close>)
  next
    case 3
    show ?thesis
    proof (cases "skip_ws t \<noteq> [] \<and> hd (skip_ws t) = 93")
      case False
      with "2.prems" s 3 have "scan_array fr n [] (skip_ws t) = Some (Inr (v, r))" by (simp add: Let_def)
      with "2.IH"(2) [OF s _ _ 3 refl False] 3 show ?thesis by simp
    qed (use "2.prems" s 3 in \<open>auto simp: loaded_def\<close>)
  next
    case 4
    with "2.prems" s show ?thesis by (auto intro: scan_literal_loaded)
  qed
next
  case (4 fr n acc s)
  from "4.prems"(1) obtain v0 r0 where sc: "scan_once fr n s = Some (Inr (v0, r0))"
    by (auto split: option.splits sum.splits)
  have l0: "loaded v0" by (rule "4.IH"(1) [OF sc])
  define r' where "r' = skip_ws r0"
  have eq: "scan_array fr (Suc n) acc s =
      (if r' \<noteq> [] \<and> hd r' = 93 then Some (Inr (PList (acc @ [v0]), tl r'))
       else if r' \<noteq> [] \<and> hd r' = 44 then scan_array fr n (acc @ [v0]) (skip_ws (tl r'))
       else Some (Inl JSONDecodeError))"
    by (simp add: sc r'_def Let_def)
  show ?case
  proof (cases "r' \<noteq> [] \<and> hd r' = 93")
    case True
    with "4.prems" eq l0 show ?thesis by (auto simp: loaded_list)
  next
    case False
    with "4.prems"(1) eq have c: "r' \<noteq> [] \<and> hd r' = 44"
      and rec: "scan_array fr n (acc @ [v0]) (skip_ws (tl r')) = Some (Inr (v, r))"
      by (auto split: if_splits)
    show ?thesis
      using "4.IH"(2) [OF sc refl refl, of r'] r'_def False c rec "4.prems"(2) l0 by simp
  qed
next
  case (6 fr n kvs s)
  from "6.prems"(1) have s: "s \<noteq> [] \<and> hd s = 34" by (auto split: if_splits)
  with "6.prems"(1) obtain k r0 where ss: "scan_string (tl s) = Inr (k, r0)"
    by (auto split: sum.splits)
  define r1 where "r1 = skip_ws r0"
  from "6.prems"(1) s ss have c1: "r1 \<noteq> [] \<and> hd r1 = 58"
    by (auto simp: r1_def Let_def split: if_splits)
  from "6.prems"(1) s ss c1 obtain v0 r2 where sc: "scan_once fr n (skip_ws (tl r1)) = Some (Inr (v0, r2))"
    by (auto simp: r1_def Let_def split: option.splits sum.splits)
  have l0: "loaded v0"
    using "6.IH"(1) s ss r1_def c1 sc by fastforce
  define r3 where "r3 = skip_ws r2"
  define acc' where "acc' = dict_set kvs (KStr k) v0"
  have la: "loaded (PDict acc')" unfolding acc'_def using "6.prems"(2) l0 by (rule loaded_dict_set)
  have eq: "scan_object fr (Suc n) kvs s =
      (if r3 \<noteq> [] \<and> hd r3 = 125 then Some (Inr (PDict acc', tl r3))
       else if r3 \<noteq> [] \<and> hd r3 = 44 then scan_object fr n acc' (skip_ws (tl r3))
       else Some (Inl JSONDecodeError))"
    using s c1 by (simp add: ss sc r1_def [symmetric] r3_def acc'_def Let_def)
  show ?case
  proof (cases "r3 \<noteq> [] \<and> hd r3 = 125")
    case True
    with "6.prems"(1) eq la show ?thesis by auto
  next
    case False
    with "6.prems"(1) eq have c: "r3 \<noteq> [] \<and> hd r3 = 44"
      and rec: "scan_object fr n acc' (skip_ws (tl r3)) = Some (Inr (v, r))"
      by (auto split: if_splits)
    show ?thesis
      using "6.IH"(2) s ss r1_def c1 sc r3_def acc'_def False c rec la by fastforce
  qed
qed simp_all


subsection \<open>Properties of json.loads\<close>

text \<open>
  \<open>json.loads\<close> always returns: on every input the scanner, run with the fuel
  \<open>json_decode\<close> gives it, ends with a value or a \<open>JSONDecodeError\<close>, never by running
  out of fuel. Every value it returns is well formed, with distinct string keys.
\<close>

lemma json_decode_total: "\<exists>r. json_decode fr s = Some r"
  using scan_json_fuel [of fr s] by (auto simp: json_decode_def split: option.splits sum.splits)

lemma json_loads_loaded: "json_loads fr s = Inr v \<Longrightarrow> loaded v"
  using json_decode_loads [of fr s]
  by (auto simp: json_decode_def split: if_splits option.splits sum.splits intro: scan_loaded(1))

end
