(* ===== verification/JsonRoundtrip.thy ===== *)
theory JsonRoundtrip
  imports JsonLoads Utf8
begin

text \<open>
  \<open>json.loads\<close> inverts \<open>json.dumps\<close>: the text \<open>json.dumps\<close> writes for a value
  (with the separators and the ASCII escaping of the defaults), surrounded by any
  whitespace, is parsed back to the same value. The value must be one \<open>json.loads\<close> can
  return: strings of Unicode scalar values (a lone surrogate is written as an escape that
  may pair up with the next one), dict keys that are distinct strings, and floats whose
  \<open>repr\<close> is read back unchanged. After a complete value, anything but whitespace is
  rejected.
\<close>

subsection \<open>Values that survive the round trip\<close>

text \<open>
  Where a number may end: at the end of the input, a delimiter or whitespace. A float is
  kept when its text is a number literal with a fraction or an exponent that \<open>fr\<close>
  gives back; \<open>json_ok\<close> is the condition for the round trip; \<open>json_start\<close> the
  characters a serialised value can start with; \<open>member_text\<close> one \<open>key: value\<close>
  member of a serialised dict.
\<close>

definition json_stop :: "pystr \<Rightarrow> bool" where
  "json_stop r \<longleftrightarrow> r = [] \<or> hd r \<in> {44, 93, 125} \<or> is_ws (hd r)"


definition float_text :: "(pystr \<Rightarrow> pystr) \<Rightarrow> pystr \<Rightarrow> bool" where
  "float_text fr r =
     (case match_number r of
        None \<Rightarrow> False
      | Some (ip, fp, ep, t) \<Rightarrow> t = [] \<and> (fp \<noteq> [] \<or> ep \<noteq> []) \<and> fr r = r)"

fun json_key_ok :: "pykey \<Rightarrow> bool" where
  "json_key_ok (KStr s) = (\<forall>c \<in> set s. scalar c)"
| "json_key_ok (KInt i) = False"

fun json_ok :: "(pystr \<Rightarrow> pystr) \<Rightarrow> pyval \<Rightarrow> bool" where
  "json_ok fr (PStr s) = (\<forall>c \<in> set s. scalar c)"
| "json_ok fr (PFloat r) = (r = py ''nan'' \<or> r = py ''inf'' \<or> r = py ''-inf'' \<or> float_text fr r)"
| "json_ok fr (PList xs) = list_all (json_ok fr) xs"
| "json_ok fr (PDict kvs) =
     (distinct (map fst kvs) \<and> list_all (\<lambda>(k, v). json_key_ok k \<and> json_ok fr v) kvs)"
| "json_ok fr v = True"

definition json_start :: "nat \<Rightarrow> bool" where
  "json_start c \<longleftrightarrow> c \<in> {34, 45, 73, 78, 91, 102, 110, 116, 123} \<or> is_digit c"

definition member_text :: "pykey \<times> pyval \<Rightarrow> pystr" where
  "member_text kv = json_key (fst kv) @ py '': '' @ json_dumps (snd kv)"


subsection \<open>Strings and numbers\<close>

lemma hex_acc_append:
  "hex_acc a (xs @ ys) = (case hex_acc a xs of None \<Rightarrow> None | Some b \<Rightarrow> hex_acc b ys)"
  by (induction xs arbitrary: a) (auto split: option.splits)

lemma hex_val_digit: "d < 16 \<Longrightarrow> hex_val (hex_digit d) = Some d"
  by (auto simp: hex_val_def hex_digit_def)

lemma hex_acc_hex_pad: "hex_acc a (hex_pad k n) = Some (a * 16 ^ k + n mod 16 ^ k)"
proof (induction k arbitrary: n)
  case (Suc k)
  have "a * 16 ^ k * 16 + n div 16 mod 16 ^ k * 16 + n mod 16 = a * (16 * 16 ^ k) + n mod (16 * 16 ^ k)"
    by (simp add: mod_mult2_eq algebra_simps)
  then show ?case by (simp add: hex_acc_append Suc.IH hex_val_digit)
qed simp

lemma hex_acc_hex_pad4: "n < 65536 \<Longrightarrow> hex_acc 0 (hex_pad 4 n) = Some n"
  using hex_acc_hex_pad [of 0 4 n] by simp

lemma scan_string_Cons:
  "c \<noteq> 34 \<Longrightarrow> c \<noteq> 92 \<Longrightarrow> 31 < c \<Longrightarrow> scan_string (c # t) = map_sum id (apfst (Cons c)) (scan_string t)"
  by simp

lemma scan_string_simple:
  "simple_escape e = Some c \<Longrightarrow> e \<noteq> 117 \<Longrightarrow> scan_string (92 # e # t) = map_sum id (apfst (Cons c)) (scan_string t)"
  by simp

lemma scan_string_u:
  assumes "u < 65536" "\<not> high_surrogate u" "t \<noteq> []"
  shows "scan_string (92 # 117 # hex_pad 4 u @ t) = map_sum id (apfst (Cons u)) (scan_string t)"
  using assms by (simp add: hex_acc_hex_pad4)

lemma scan_string_pair:
  assumes "high_surrogate hi" "low_surrogate lo" "t \<noteq> []"
  shows "scan_string (92 # 117 # hex_pad 4 hi @ 92 # 117 # hex_pad 4 lo @ t) =
    map_sum id (apfst (Cons (join_surrogates hi lo))) (scan_string t)"
proof -
  have "hi < 65536" "lo < 65536" using assms(1,2) by (simp_all add: high_surrogate_def low_surrogate_def)
  then show ?thesis using assms by (simp add: hex_acc_hex_pad4)
qed

lemma scan_escape_char:
  assumes c: "scalar c" and t: "t \<noteq> []"
  shows "scan_string (json_escape_char c @ t) = map_sum id (apfst (Cons c)) (scan_string t)"
proof -
  have ns: "\<not> high_surrogate c" using c unfolding scalar_def high_surrogate_def by linarith
  consider "c \<in> {34, 92, 8, 12, 10, 13, 9}" | "c \<notin> {34, 92, 8, 12, 10, 13, 9}" "32 \<le> c \<and> c \<le> 126"
    | "c \<notin> {34, 92, 8, 12, 10, 13, 9}" "\<not> (32 \<le> c \<and> c \<le> 126)" "c < 65536"
    | "\<not> c < 65536" by blast
  then show ?thesis
  proof cases
    case 1
    then show ?thesis by (auto simp: json_escape_char_def simple_escape_def)
  next
    case 2
    then show ?thesis by (simp add: json_escape_char_def)
  next
    case 3
    then have "json_escape_char c = 92 # 117 # hex_pad 4 c" by (auto simp: json_escape_char_def)
    with scan_string_u [OF \<open>c < 65536\<close> ns t] show ?thesis by (simp only: append_Cons)
  next
    case 4
    define n where "n = c - 65536"
    have n: "n < 1048576" "c = 65536 + n" using 4 c by (simp_all add: n_def scalar_def)
    have e: "json_escape_char c =
      92 # 117 # hex_pad 4 (55296 + n div 1024) @ 92 # 117 # hex_pad 4 (56320 + n mod 1024)"
      using 4 by (simp add: json_escape_char_def n_def Let_def)
    have "high_surrogate (55296 + n div 1024)" using n by (simp add: high_surrogate_def)
    moreover have "low_surrogate (56320 + n mod 1024)" by (simp add: low_surrogate_def)
    moreover have "join_surrogates (55296 + n div 1024) (56320 + n mod 1024) = c"
      using n by (simp add: join_surrogates_def)
    ultimately show ?thesis using scan_string_pair [OF _ _ t] e by simp
  qed
qed

lemma scan_string_escaped:
  "\<forall>c \<in> set s. scalar c \<Longrightarrow> scan_string (concat (map json_escape_char s) @ 34 # rest) = Inr (s, rest)"
  by (induction s) (simp_all add: scan_escape_char)

lemma json_stop_Cons:
  "json_stop (d # r') \<Longrightarrow> \<not> is_digit d \<and> d \<noteq> 46 \<and> d \<noteq> 101 \<and> d \<noteq> 69 \<and> d \<noteq> 43 \<and> d \<noteq> 45"
  by (auto simp: json_stop_def is_ws_def is_digit_def)

lemma json_stop_takeWhile: "json_stop r \<Longrightarrow> takeWhile is_digit r = []"
  by (cases r) (auto dest: json_stop_Cons)

lemma takeWhile_stop: "json_stop r \<Longrightarrow> takeWhile is_digit (x @ r) = takeWhile is_digit x"
proof (cases "\<forall>a \<in> set x. is_digit a")
  case True
  have a: "takeWhile is_digit x = x" by (simp add: takeWhile_eq_all_conv True)
  assume "json_stop r"
  with True show ?thesis by (simp add: takeWhile_append json_stop_takeWhile) (metis a)
qed (auto simp: takeWhile_append)

lemma dropWhile_stop: "json_stop r \<Longrightarrow> dropWhile is_digit (x @ r) = dropWhile is_digit x @ r"
  by (cases r) (auto simp: dropWhile_append dest: json_stop_Cons)

lemma scan_int_stop:
  "json_stop r \<Longrightarrow> scan_int (s @ r) = map_option (\<lambda>(ip, t). (ip, t @ r)) (scan_int s)"
  by (cases s; cases r) (auto simp: scan_int_def takeWhile_stop dropWhile_stop is_digit_def dest: json_stop_Cons)

lemma json_stop_frac: "json_stop r \<Longrightarrow> scan_frac r = ([], r)"
  by (cases r rule: remdups_adj.cases) (auto simp: scan_frac_def dest: json_stop_Cons)

lemma scan_frac_stop:
  "json_stop r \<Longrightarrow> scan_frac (s @ r) = (fst (scan_frac s), snd (scan_frac s) @ r)"
proof (cases s rule: remdups_adj.cases)
  case (2 p)
  assume r: "json_stop r"
  then show ?thesis using 2 by (cases r) (auto simp: scan_frac_def dest: json_stop_Cons)
next
  case (3 p d t)
  assume r: "json_stop r"
  then show ?thesis using 3 by (simp add: scan_frac_def takeWhile_stop dropWhile_stop)
qed (simp add: json_stop_frac, simp add: scan_frac_def)

lemma json_stop_exp: "json_stop r \<Longrightarrow> scan_exp r = ([], r)"
  by (cases r) (auto simp: scan_exp_def dest: json_stop_Cons)

lemma scan_exp_stop:
  assumes r: "json_stop r"
  shows "scan_exp (s @ r) = (fst (scan_exp s), snd (scan_exp s) @ r)"
proof (cases s)
  case Nil
  with r show ?thesis by (simp add: json_stop_exp) (simp add: scan_exp_def)
next
  case (Cons e t)
  show ?thesis
  proof (cases "e = 101 \<or> e = 69")
    case E: True
    show ?thesis
    proof (cases t)
      case Nil
      have "takeWhile is_digit r = []" using r by (cases r) (auto dest: json_stop_Cons)
      moreover have "(case r of [] \<Rightarrow> ([], r) | c # r'' \<Rightarrow> if c = 43 \<or> c = 45 then ([c], r'') else ([], r)) = ([], r)"
        using r by (cases r) (auto dest: json_stop_Cons)
      ultimately show ?thesis using Cons Nil E by (simp add: scan_exp_def)
    next
      case (Cons c t')
      show ?thesis
      proof (cases "c = 43 \<or> c = 45")
        case True
        with Cons \<open>s = e # t\<close> E r show ?thesis
          by (simp add: scan_exp_def takeWhile_stop dropWhile_stop Let_def)
      next
        case False
        with Cons \<open>s = e # t\<close> E r takeWhile_stop [OF r, of "c # t'"] dropWhile_stop [OF r, of "c # t'"]
        show ?thesis by (simp add: scan_exp_def Let_def del: takeWhile.simps dropWhile.simps)
      qed
    qed
  next
    case False
    with Cons show ?thesis by (simp add: scan_exp_def)
  qed
qed

lemma match_number_stop:
  assumes r: "json_stop r"
  shows "match_number (s @ r) = map_option (\<lambda>(ip, fp, ep, t). (ip, fp, ep, t @ r)) (match_number s)"
proof (cases "s = []")
  case True
  have "scan_int r = None"
    using r by (cases r) (auto simp: scan_int_def is_digit_def dest: json_stop_Cons)
  moreover have "r \<noteq> [] \<longrightarrow> hd r \<noteq> 45"
    using r by (cases r) (auto dest: json_stop_Cons)
  ultimately show ?thesis using True by (auto simp: match_number_def) (simp add: scan_int_def)
next
  case False
  define s1 where "s1 = (if hd s = 45 then tl s else s)"
  have m1: "match_number s = (let sg = (if hd s = 45 then [45] else []) in
      case scan_int s1 of None \<Rightarrow> None
      | Some (ip, s2) \<Rightarrow> (case scan_frac s2 of (fp, s3) \<Rightarrow>
          case scan_exp s3 of (ep, s4) \<Rightarrow> Some (sg @ ip, fp, ep, s4)))"
    using False by (simp add: match_number_def s1_def)
  have m2: "match_number (s @ r) = (let sg = (if hd s = 45 then [45] else []) in
      case scan_int (s1 @ r) of None \<Rightarrow> None
      | Some (ip, s2) \<Rightarrow> (case scan_frac s2 of (fp, s3) \<Rightarrow>
          case scan_exp s3 of (ep, s4) \<Rightarrow> Some (sg @ ip, fp, ep, s4)))"
    using False by (simp add: match_number_def s1_def)
  show ?thesis
  proof (cases "scan_int s1")
    case (Some p)
    obtain ip s2 where p: "p = (ip, s2)" by fastforce
    obtain fp s3 where f: "scan_frac s2 = (fp, s3)" by fastforce
    obtain ep s4 where e: "scan_exp s3 = (ep, s4)" by fastforce
    show ?thesis
      using m1 m2 Some p f e scan_int_stop [OF r, of s1] scan_frac_stop [OF r, of s2]
        scan_exp_stop [OF r, of s3] by (simp add: Let_def)
  qed (use m1 m2 scan_int_stop [OF r, of s1] in \<open>simp add: Let_def\<close>)
qed

lemma scan_int_first: "scan_int s = Some (ip, t) \<Longrightarrow> s \<noteq> [] \<and> is_digit (hd s)"
  by (auto simp: scan_int_def is_digit_def split: list.splits if_splits)

lemma match_number_first:
  "match_number s = Some (ip, fp, ep, t) \<Longrightarrow>
     s \<noteq> [] \<and> (is_digit (hd s) \<or> hd s = 45 \<and> tl s \<noteq> [] \<and> is_digit (hd (tl s)))"
  unfolding match_number_def
  by (auto split: if_splits option.splits prod.splits dest!: scan_int_first)

lemma take_nth: "take k x = y \<Longrightarrow> i < length y \<Longrightarrow> x ! i = y ! i"
  by (metis length_take min_less_iff_conj nth_take)

lemma scan_literal_number:
  assumes m: "match_number s = Some (ip, fp, ep, [])" and r: "json_stop rest"
  shows "scan_literal fr (s @ rest) = Inr (number_value fr ip fp ep, rest)"
proof -
  from match_number_first [OF m] have s: "s \<noteq> []"
    and h: "is_digit (hd s) \<or> hd s = 45 \<and> tl s \<noteq> [] \<and> is_digit (hd (tl s))" by auto
  have h0: "(s @ rest) ! 0 = hd s" using s by (cases s) auto
  have h1: "hd s = 45 \<Longrightarrow> (s @ rest) ! 1 = hd (tl s)" using h s by (cases s; cases "tl s") (auto simp: is_digit_def)
  have d: "\<And>c. is_digit c \<Longrightarrow> c \<notin> {110, 116, 102, 78, 73, 45}" by (auto simp: is_digit_def)
  have t0: "\<And>k L. take k (s @ rest) = L \<Longrightarrow> L \<noteq> [] \<Longrightarrow> hd s = hd L"
  proof -
    fix k L assume a: "take k (s @ rest) = L" "L \<noteq> []"
    then have "0 < k" by (cases k) auto
    then have "hd L = hd (s @ rest)" using a by (metis hd_take)
    then show "hd s = hd L" using s by simp
  qed
  have t1: "\<And>k L. take k (s @ rest) = L \<Longrightarrow> 1 < length L \<Longrightarrow> (s @ rest) ! 1 = L ! 1"
    by (rule take_nth)
  have nd: "\<not> is_digit 73" by (simp add: is_digit_def)
  have "take 4 (s @ rest) \<noteq> py ''null''" "take 4 (s @ rest) \<noteq> py ''true''"
    "take 5 (s @ rest) \<noteq> py ''false''" "take 3 (s @ rest) \<noteq> py ''NaN''"
    "take 8 (s @ rest) \<noteq> py ''Infinity''"
    using h d t0 [of 4 "py ''null''"] t0 [of 4 "py ''true''"] t0 [of 5 "py ''false''"]
      t0 [of 3 "py ''NaN''"] t0 [of 8 "py ''Infinity''"] by auto
  moreover have "take 9 (s @ rest) \<noteq> py ''-Infinity''"
  proof
    assume a: "take 9 (s @ rest) = py ''-Infinity''"
    then have "hd s = 45" using t0 [OF a] by simp
    moreover have "(s @ rest) ! 1 = 73" using t1 [OF a] by simp
    ultimately show False using h h1 nd by (auto simp: is_digit_def)
  qed
  ultimately show ?thesis using match_number_stop [OF r, of s] m by (simp add: scan_literal_def)
qed

lemma dec_val_snoc: "dec_val (xs @ [d]) = 10 * dec_val xs + (d - 48)"
  by (simp add: dec_val_def)

lemma nat_digits_dec:
  "nat_digits n \<noteq> [] \<and> dec_val (nat_digits n) = n \<and> (hd (nat_digits n) = 48 \<longrightarrow> n = 0)"
proof (induction n rule: nat_digits.induct)
  case (1 n)
  show ?case
  proof (cases "n < 10")
    case True
    then show ?thesis by (simp add: nat_digits.simps [of n] dec_val_def)
  next
    case False
    then have "hd (nat_digits (n div 10) @ [48 + n mod 10]) = hd (nat_digits (n div 10))"
      using "1.IH" by simp
    moreover have "n div 10 \<noteq> 0" using False by simp
    ultimately show ?thesis using False "1.IH" by (simp add: nat_digits.simps [of n] dec_val_snoc)
  qed
qed

lemma nat_digits_0: "nat_digits 0 = [48]"
  by (simp add: nat_digits.simps)

lemma scan_int_digits:
  assumes "ds \<noteq> []" "\<forall>d \<in> set ds. is_digit d" "hd ds = 48 \<longrightarrow> ds = [48]"
  shows "scan_int ds = Some (ds, [])"
proof (cases ds)
  case (Cons d r)
  then have "takeWhile is_digit r = r" "dropWhile is_digit r = []" using assms(2) by simp_all
  with Cons assms show ?thesis by (auto simp: scan_int_def is_digit_def)
qed (use assms in simp)

lemma nat_digits_digit: "\<forall>d \<in> set (nat_digits n). is_digit d"
  using nat_digits_ascii [of n] by (auto simp: is_digit_def)

lemma scan_int_nat: "scan_int (nat_digits n) = Some (nat_digits n, [])"
proof -
  have "hd (nat_digits n) = 48 \<longrightarrow> nat_digits n = [48]" using nat_digits_dec [of n] nat_digits_0 by auto
  then show ?thesis using nat_digits_dec [of n] nat_digits_digit [of n] by (simp add: scan_int_digits)
qed

lemma nat_digits_hd: "nat_digits n \<noteq> [] \<and> hd (nat_digits n) \<noteq> 45"
  using nat_digits_dec [of n] nat_digits_digit [of n] by (cases "nat_digits n") (auto simp: is_digit_def)

lemma match_number_int: "match_number (py_int_str i) = Some (py_int_str i, [], [], [])"
  using scan_int_nat nat_digits_hd
  by (simp add: match_number_def py_int_str_def scan_frac_def scan_exp_def)

lemma int_of_dec_int: "int_of_dec (py_int_str i) = i"
  using nat_digits_dec [of "nat i"] nat_digits_dec [of "nat (- i)"] nat_digits_hd
  by (simp add: int_of_dec_def py_int_str_def)

lemma float_text_split:
  assumes "float_text fr r"
  obtains ip fp ep where "match_number r = Some (ip, fp, ep, [])" "fp \<noteq> [] \<or> ep \<noteq> []" "fr r = r"
  using assms by (auto simp: float_text_def split: option.splits)

lemma json_dumps_start: "json_ok fr v \<Longrightarrow> json_dumps v \<noteq> [] \<and> json_start (hd (json_dumps v))"
proof (cases v)
  case (PInt i)
  have ne: "nat_digits (nat i) \<noteq> []" using nat_digits_hd by blast
  then have "is_digit (hd (nat_digits (nat i)))" using nat_digits_digit [of "nat i"] by simp
  then show ?thesis using PInt ne by (auto simp: py_int_str_def json_start_def)
next
  case (PFloat r)
  assume ok: "json_ok fr v"
  show ?thesis
  proof (cases "r = py ''nan'' \<or> r = py ''inf'' \<or> r = py ''-inf''")
    case True
    with PFloat show ?thesis by (auto simp: json_float_def json_start_def)
  next
    case False
    with ok PFloat have "float_text fr r" by simp
    then obtain ip fp ep where "match_number r = Some (ip, fp, ep, [])" by (rule float_text_split)
    from match_number_first [OF this] False PFloat show ?thesis
      by (auto simp: json_float_def json_start_def)
  qed
qed (auto simp: json_start_def json_str_def)

lemma json_start_not: "json_start c \<Longrightarrow> \<not> is_ws c \<and> c \<notin> {44, 58, 93, 125, 65279}"
  by (auto simp: json_start_def is_ws_def is_digit_def)

lemma skip_ws_start: "x \<noteq> [] \<Longrightarrow> \<not> is_ws (hd x) \<Longrightarrow> skip_ws (x @ r) = x @ r"
  by (cases x) (simp_all add: skip_ws_def)

lemma scan_once_literal:
  "s \<noteq> [] \<Longrightarrow> hd s \<notin> {34, 123, 91} \<Longrightarrow> scan_once fr (Suc n) s = Some (scan_literal fr s)"
  by (cases s) auto

lemma scan_array_close:
  "scan_once fr n s = Some (Inr (v, r)) \<Longrightarrow> skip_ws r = 93 # rest \<Longrightarrow>
     scan_array fr (Suc n) acc s = Some (Inr (PList (acc @ [v]), rest))"
  by simp

lemma scan_array_comma:
  "scan_once fr n s = Some (Inr (v, r)) \<Longrightarrow> skip_ws r = 44 # t \<Longrightarrow>
     scan_array fr (Suc n) acc s = scan_array fr n (acc @ [v]) (skip_ws t)"
  by simp

lemma scan_object_close:
  "scan_string t = Inr (k, r) \<Longrightarrow> skip_ws r = 58 # r1 \<Longrightarrow>
     scan_once fr n (skip_ws r1) = Some (Inr (v, r2)) \<Longrightarrow> skip_ws r2 = 125 # rest \<Longrightarrow>
     scan_object fr (Suc n) acc (34 # t) = Some (Inr (PDict (dict_set acc (KStr k) v), rest))"
  by simp

lemma scan_object_comma:
  "scan_string t = Inr (k, r) \<Longrightarrow> skip_ws r = 58 # r1 \<Longrightarrow>
     scan_once fr n (skip_ws r1) = Some (Inr (v, r2)) \<Longrightarrow> skip_ws r2 = 44 # t' \<Longrightarrow>
     scan_object fr (Suc n) acc (34 # t) = scan_object fr n (dict_set acc (KStr k) v) (skip_ws t')"
  by simp

lemma skip_ws_space: "skip_ws (32 # t) = skip_ws t"
  by (simp add: skip_ws_def is_ws_def)

lemma skip_ws_delim: "c \<in> {44, 58, 93, 125} \<Longrightarrow> skip_ws (c # t) = c # t"
  by (auto simp: skip_ws_def is_ws_def)

lemma str_join_Cons: "xs \<noteq> [] \<Longrightarrow> str_join sep (x # xs) = x @ sep @ str_join sep xs"
  by (cases xs) simp_all

lemma str_join_hd: "xs \<noteq> [] \<Longrightarrow> \<exists>t. str_join sep (map f xs) = f (hd xs) @ t"
  by (cases xs rule: remdups_adj.cases) auto

lemma scan_fuel_max:
  "scan_once fr n s = Some x \<Longrightarrow> scan_once fr (max n m) s = Some x"
  "scan_array fr m acc s' = Some y \<Longrightarrow> scan_array fr (max n m) acc s' = Some y"
  using scan_fuel_mono(1) [of fr n s x "max n m"] scan_fuel_mono(2) [of fr m acc s' y "max n m"] by simp_all

lemma json_stop_delim: "c \<in> {44, 93, 125} \<Longrightarrow> json_stop (c # t)"
  by (simp add: json_stop_def)

lemma skip_ws_dumps:
  "json_ok fr x \<Longrightarrow> skip_ws (json_dumps x @ t) = json_dumps x @ t"
  using json_dumps_start [of fr x] json_start_not by (simp add: skip_ws_start)

lemma scan_items:
  assumes IH: "\<And>x r. x \<in> set xs \<Longrightarrow> json_ok fr x \<Longrightarrow> json_stop r \<Longrightarrow>
      \<exists>n. scan_once fr n (json_dumps x @ r) = Some (Inr (x, r))"
    and ok: "list_all (json_ok fr) xs" and ne: "xs \<noteq> []"
  shows "\<exists>n. scan_array fr n acc (str_join (py '', '') (map json_dumps xs) @ 93 # rest) =
    Some (Inr (PList (acc @ xs), rest))"
  using ne IH ok
proof (induction xs arbitrary: acc rule: list_nonempty_induct)
  case (single x)
  then obtain n where "scan_once fr n (json_dumps x @ 93 # rest) = Some (Inr (x, 93 # rest))"
    using json_stop_delim [of 93 rest] by fastforce
  then have "scan_array fr (Suc n) acc (json_dumps x @ 93 # rest) = Some (Inr (PList (acc @ [x]), rest))"
    by (rule scan_array_close) (simp add: skip_ws_delim)
  then show ?case by (intro exI) (simp del: scan_array.simps)
next
  case (cons x xs)
  define t where "t = str_join (py '', '') (map json_dumps xs) @ 93 # rest"
  obtain n1 where n1: "scan_once fr n1 (json_dumps x @ 44 # 32 # t) = Some (Inr (x, 44 # 32 # t))"
    using cons.prems json_stop_delim [of 44 "32 # t"] by fastforce
  obtain n2 where n2: "scan_array fr n2 (acc @ [x]) t = Some (Inr (PList (acc @ [x] @ xs), rest))"
    using cons.IH [of "acc @ [x]"] cons.prems unfolding t_def by auto
  obtain y t' where "str_join (py '', '') (map json_dumps xs) = json_dumps y @ t'" "y = hd xs"
    using str_join_hd [OF cons.hyps, of "py '', ''" json_dumps] by blast
  moreover have "json_ok fr (hd xs)" using cons.prems(2) cons.hyps by (cases xs) auto
  ultimately have st: "skip_ws t = t" unfolding t_def by (simp add: skip_ws_dumps)
  have "scan_array fr (Suc (max n1 n2)) acc (json_dumps x @ 44 # 32 # t) =
      scan_array fr (max n1 n2) (acc @ [x]) (skip_ws (32 # t))"
    by (rule scan_array_comma [OF scan_fuel_max(1) [OF n1]]) (simp add: skip_ws_delim)
  also have "\<dots> = Some (Inr (PList (acc @ x # xs), rest))"
    using scan_fuel_max(2) [OF n2, of n1] by (simp add: skip_ws_space st)
  finally show ?case using cons.hyps by (intro exI) (simp add: str_join_Cons t_def del: scan_array.simps)
qed

lemma json_key_text:
  "\<forall>c \<in> set k. scalar c \<Longrightarrow> json_ok fr v \<Longrightarrow>
     \<exists>t. json_key (KStr k) @ py '': '' @ json_dumps v @ R = 34 # t \<and>
       scan_string t = Inr (k, 58 # 32 # json_dumps v @ R) \<and>
       skip_ws (58 # 32 # json_dumps v @ R) = 58 # 32 # json_dumps v @ R \<and>
       skip_ws (32 # json_dumps v @ R) = json_dumps v @ R"
  by (simp add: json_key_def json_str_def scan_string_escaped skip_ws_delim skip_ws_space skip_ws_dumps)

lemma scan_member_close:
  assumes "\<forall>c \<in> set k. scalar c" "json_ok fr v"
    and "scan_once fr n (json_dumps v @ 125 # rest) = Some (Inr (v, 125 # rest))"
  shows "scan_object fr (Suc n) acc (json_key (KStr k) @ py '': '' @ json_dumps v @ 125 # rest) =
    Some (Inr (PDict (dict_set acc (KStr k) v), rest))"
proof -
  obtain t where t: "json_key (KStr k) @ py '': '' @ json_dumps v @ 125 # rest = 34 # t"
    "scan_string t = Inr (k, 58 # 32 # json_dumps v @ 125 # rest)"
    "skip_ws (58 # 32 # json_dumps v @ 125 # rest) = 58 # 32 # json_dumps v @ 125 # rest"
    "skip_ws (32 # json_dumps v @ 125 # rest) = json_dumps v @ 125 # rest"
    using json_key_text [OF assms(1,2), of "125 # rest"] by blast
  have "scan_object fr (Suc n) acc (34 # t) = Some (Inr (PDict (dict_set acc (KStr k) v), rest))"
  proof (rule scan_object_close [OF t(2) t(3)])
    show "scan_once fr n (skip_ws (32 # json_dumps v @ 125 # rest)) = Some (Inr (v, 125 # rest))"
      by (simp only: t(4) assms(3))
  qed (simp add: skip_ws_delim)
  then show ?thesis by (simp only: t(1))
qed

lemma scan_member_comma:
  assumes "\<forall>c \<in> set k. scalar c" "json_ok fr v"
    and "scan_once fr n (json_dumps v @ 44 # 32 # t') = Some (Inr (v, 44 # 32 # t'))"
  shows "scan_object fr (Suc n) acc (json_key (KStr k) @ py '': '' @ json_dumps v @ 44 # 32 # t') =
    scan_object fr n (dict_set acc (KStr k) v) (skip_ws t')"
proof -
  obtain t where t: "json_key (KStr k) @ py '': '' @ json_dumps v @ 44 # 32 # t' = 34 # t"
    "scan_string t = Inr (k, 58 # 32 # json_dumps v @ 44 # 32 # t')"
    "skip_ws (58 # 32 # json_dumps v @ 44 # 32 # t') = 58 # 32 # json_dumps v @ 44 # 32 # t'"
    "skip_ws (32 # json_dumps v @ 44 # 32 # t') = json_dumps v @ 44 # 32 # t'"
    using json_key_text [OF assms(1,2), of "44 # 32 # t'"] by blast
  have "scan_object fr (Suc n) acc (34 # t) = scan_object fr n (dict_set acc (KStr k) v) (skip_ws (32 # t'))"
  proof (rule scan_object_comma [OF t(2) t(3)])
    show "scan_once fr n (skip_ws (32 # json_dumps v @ 44 # 32 # t')) = Some (Inr (v, 44 # 32 # t'))"
      by (simp only: t(4) assms(3))
  qed (simp add: skip_ws_delim)
  then show ?thesis by (simp only: t(1) skip_ws_space)
qed

subsection \<open>Arrays and objects\<close>

lemma dict_set_new: "k \<notin> fst ` set acc \<Longrightarrow> dict_set acc k v = acc @ [(k, v)]"
  by (simp add: dict_set_def)

lemma scan_members:
  assumes IH: "\<And>k v r. (k, v) \<in> set kvs \<Longrightarrow> json_ok fr v \<Longrightarrow> json_stop r \<Longrightarrow>
      \<exists>n. scan_once fr n (json_dumps v @ r) = Some (Inr (v, r))"
    and ok: "list_all (\<lambda>(k, v). json_key_ok k \<and> json_ok fr v) kvs" and ne: "kvs \<noteq> []"
    and d: "distinct (map fst (acc @ kvs))"
  shows "\<exists>n. scan_object fr n acc (str_join (py '', '') (map member_text kvs) @ 125 # rest) =
    Some (Inr (PDict (acc @ kvs), rest))"
  using ne IH ok d
proof (induction kvs arbitrary: acc rule: list_nonempty_induct)
  case (single kv)
  obtain key v where kv: "kv = (key, v)" by fastforce
  with single.prems(2) obtain k where key: "key = KStr k" "\<forall>c \<in> set k. scalar c" "json_ok fr v"
    by (cases key) auto
  obtain n where n: "scan_once fr n (json_dumps v @ 125 # rest) = Some (Inr (v, 125 # rest))"
    using single.prems(1) [of key v "125 # rest"] kv key json_stop_delim [of 125 rest] by auto
  have "dict_set acc (KStr k) v = acc @ [(KStr k, v)]"
    using single.prems(3) kv key by (simp add: dict_set_new)
  then have "scan_object fr (Suc n) acc (member_text kv @ 125 # rest) = Some (Inr (PDict (acc @ [kv]), rest))"
    using scan_member_close [OF key(2,3) n, of acc] kv key by (simp add: member_text_def)
  then show ?case by (intro exI) (simp del: scan_object.simps)
next
  case (cons kv kvs)
  obtain key v where kv: "kv = (key, v)" by fastforce
  with cons.prems(2) obtain k where key: "key = KStr k" "\<forall>c \<in> set k. scalar c" "json_ok fr v"
    by (cases key) auto
  define t where "t = str_join (py '', '') (map member_text kvs) @ 125 # rest"
  obtain n1 where n1: "scan_once fr n1 (json_dumps v @ 44 # 32 # t) = Some (Inr (v, 44 # 32 # t))"
    using cons.prems(1) [of key v "44 # 32 # t"] kv key json_stop_delim [of 44 "32 # t"] by auto
  have d: "dict_set acc (KStr k) v = acc @ [kv]"
    using cons.prems(3) kv key by (simp add: dict_set_new)
  have "\<exists>n2. scan_object fr n2 (acc @ [kv]) t = Some (Inr (PDict ((acc @ [kv]) @ kvs), rest))"
    unfolding t_def
  proof (rule cons.IH)
    show "\<And>k v r. (k, v) \<in> set kvs \<Longrightarrow> json_ok fr v \<Longrightarrow> json_stop r \<Longrightarrow>
        \<exists>n. scan_once fr n (json_dumps v @ r) = Some (Inr (v, r))"
      using cons.prems(1) by auto
  qed (use cons.prems(2,3) in simp_all)
  then obtain n2 where n2: "scan_object fr n2 (acc @ [kv]) t = Some (Inr (PDict (acc @ [kv] @ kvs), rest))"
    by auto
  obtain y t' where "str_join (py '', '') (map member_text kvs) = member_text y @ t'"
    using str_join_hd [OF cons.hyps, of "py '', ''" member_text] by blast
  moreover have "json_key (fst y) \<noteq> [] \<and> hd (json_key (fst y)) = 34"
    by (cases "fst y") (simp_all add: json_key_def json_str_def)
  ultimately have st: "skip_ws t = t" unfolding t_def member_text_def
    by (cases "json_key (fst y)") (simp_all add: skip_ws_def is_ws_def)
  have "scan_object fr (Suc (max n1 n2)) acc (member_text kv @ 44 # 32 # t) =
      scan_object fr (max n1 n2) (acc @ [kv]) t"
    using scan_member_comma [OF key(2,3) scan_fuel_max(1) [OF n1, of n2], of acc] kv key d st
    by (simp add: member_text_def)
  also have "\<dots> = Some (Inr (PDict (acc @ kv # kvs), rest))"
    using scan_fuel_mono(3) [OF n2, of "max n1 n2"] by simp
  finally show ?case using cons.hyps
    by (intro exI) (simp add: str_join_Cons t_def del: scan_object.simps)
qed

lemma scan_once_start:
  "json_ok fr v \<Longrightarrow> hd (json_dumps v @ r) \<notin> {34, 123, 91} \<Longrightarrow>
     scan_once fr (Suc n) (json_dumps v @ r) = Some (scan_literal fr (json_dumps v @ r))"
  using json_dumps_start [of fr v] by (intro scan_once_literal) simp_all

lemma scan_dumps:
  "json_ok fr v \<Longrightarrow> json_stop rest \<Longrightarrow> \<exists>n. scan_once fr n (json_dumps v @ rest) = Some (Inr (v, rest))"
proof (induction v arbitrary: rest)
  case PNone
  show ?case by (rule exI [of _ 1]) (simp add: scan_literal_def)
next
  case (PBool b)
  show ?case by (rule exI [of _ 1]) (cases b; simp add: scan_literal_def)
next
  case (PInt i)
  have "scan_literal fr (py_int_str i @ rest) = Inr (PInt i, rest)"
    using scan_literal_number [OF match_number_int PInt.prems(2)]
    by (simp add: number_value_def int_of_dec_int)
  moreover have "hd (json_dumps (PInt i) @ rest) \<notin> {34, 123, 91}"
    using match_number_first [OF match_number_int [of i]] by (auto simp: is_digit_def)
  ultimately have "scan_once fr (Suc 0) (json_dumps (PInt i) @ rest) = Some (Inr (PInt i, rest))"
    using scan_once_start [of fr "PInt i" rest 0] by (simp del: scan_once.simps)
  then show ?case by blast
next
  case (PFloat r)
  show ?case
  proof (cases "r = py ''nan'' \<or> r = py ''inf'' \<or> r = py ''-inf''")
    case True
    then show ?thesis by (intro exI [of _ 1]) (auto simp: json_float_def scan_literal_def)
  next
    case False
    with PFloat.prems have "float_text fr r" by simp
    then obtain ip fp ep where m: "match_number r = Some (ip, fp, ep, [])" "fp \<noteq> [] \<or> ep \<noteq> []" "fr r = r"
      by (rule float_text_split)
    have "r = ip @ fp @ ep" using match_number_split [OF m(1)] by simp
    then have "scan_literal fr (r @ rest) = Inr (PFloat r, rest)"
      using scan_literal_number [OF m(1) PFloat.prems(2)] m(2,3) by (simp add: number_value_def)
    moreover have "json_dumps (PFloat r) = r" using False by (simp add: json_float_def)
    moreover have "hd (json_dumps (PFloat r) @ rest) \<notin> {34, 123, 91}"
      using match_number_first [OF m(1)] \<open>json_dumps (PFloat r) = r\<close> by (auto simp: is_digit_def)
    ultimately have "scan_once fr (Suc 0) (json_dumps (PFloat r) @ rest) = Some (Inr (PFloat r, rest))"
      using scan_once_start [OF PFloat.prems(1), of rest 0] by (simp del: scan_once.simps)
    then show ?thesis by blast
  qed
next
  case (PStr s)
  then show ?case by (intro exI [of _ 1]) (simp add: json_str_def scan_string_escaped)
next
  case (PList xs)
  show ?case
  proof (cases "xs = []")
    case True
    then show ?thesis by (intro exI [of _ 1]) (simp add: skip_ws_delim)
  next
    case False
    obtain n where n: "scan_array fr n [] (str_join (py '', '') (map json_dumps xs) @ 93 # rest) =
        Some (Inr (PList ([] @ xs), rest))"
      using scan_items [of xs fr "[]" rest] PList False by auto
    obtain y t' where "str_join (py '', '') (map json_dumps xs) = json_dumps y @ t'" "y = hd xs"
      using str_join_hd [OF False, of "py '', ''" json_dumps] by blast
    moreover have "json_ok fr (hd xs)" using PList.prems(1) False by (cases xs) auto
    ultimately have st: "skip_ws (str_join (py '', '') (map json_dumps xs) @ 93 # rest) =
        str_join (py '', '') (map json_dumps xs) @ 93 # rest"
      by (simp add: skip_ws_dumps)
    have ne: "\<not> (str_join (py '', '') (map json_dumps xs) @ 93 # rest \<noteq> [] \<and>
        hd (str_join (py '', '') (map json_dumps xs) @ 93 # rest) = 93)"
      using \<open>str_join (py '', '') (map json_dumps xs) = json_dumps y @ t'\<close> \<open>y = hd xs\<close>
        \<open>json_ok fr (hd xs)\<close> json_dumps_start [of fr y] json_start_not by auto
    show ?thesis using n st ne by (intro exI [of _ "Suc n"]) (simp add: Let_def)
  qed
next
  case (PDict kvs)
  show ?case
  proof (cases "kvs = []")
    case True
    then show ?thesis by (intro exI [of _ 1]) (simp add: skip_ws_delim)
  next
    case False
    have "\<exists>n. scan_object fr n [] (str_join (py '', '') (map member_text kvs) @ 125 # rest) =
        Some (Inr (PDict ([] @ kvs), rest))"
    proof (rule scan_members)
      show "\<And>k v r. (k, v) \<in> set kvs \<Longrightarrow> json_ok fr v \<Longrightarrow> json_stop r \<Longrightarrow>
          \<exists>n. scan_once fr n (json_dumps v @ r) = Some (Inr (v, r))"
        using PDict.IH by fastforce
    qed (use PDict.prems False in simp_all)
    then obtain n where n: "scan_object fr n [] (str_join (py '', '') (map member_text kvs) @ 125 # rest) =
        Some (Inr (PDict kvs, rest))" by auto
    obtain y t' where y: "str_join (py '', '') (map member_text kvs) = member_text y @ t'"
      using str_join_hd [OF False, of "py '', ''" member_text] by blast
    have "json_key (fst y) \<noteq> [] \<and> hd (json_key (fst y)) = 34"
      by (cases "fst y") (simp_all add: json_key_def json_str_def)
    then have h: "str_join (py '', '') (map member_text kvs) @ 125 # rest \<noteq> [] \<and>
        hd (str_join (py '', '') (map member_text kvs) @ 125 # rest) = 34"
      unfolding y member_text_def by (cases "json_key (fst y)") simp_all
    then have st: "skip_ws (str_join (py '', '') (map member_text kvs) @ 125 # rest) =
        str_join (py '', '') (map member_text kvs) @ 125 # rest"
      by (cases "str_join (py '', '') (map member_text kvs) @ 125 # rest") (simp_all add: skip_ws_def is_ws_def)
    have "(\<lambda>(k, v). json_key k @ py '': '' @ json_dumps v) = member_text"
      by (auto simp: member_text_def fun_eq_iff)
    then have "json_dumps (PDict kvs) = 123 # str_join (py '', '') (map member_text kvs) @ [125]"
      by simp
    then show ?thesis using n st h by (intro exI [of _ "Suc n"]) (simp add: Let_def)
  qed
qed


subsection \<open>The round trip\<close>

lemma json_loads_scan:
  assumes "\<not> (s \<noteq> [] \<and> hd s = 65279)" "scan_once fr n (skip_ws s) = Some (Inr (v, r))"
  shows "json_loads fr s = (if skip_ws r = [] then Inr v else Inl JSONDecodeError)"
proof -
  obtain y where "scan_once fr (json_fuel s) (skip_ws s) = Some y"
    using scan_json_fuel [of fr s] by blast
  with assms(2) have "scan_once fr (json_fuel s) (skip_ws s) = Some (Inr (v, r))"
    using scan_once_det [OF assms(2)] by auto
  then show ?thesis using assms(1) by (auto simp: json_loads_def json_decode_def)
qed

lemma json_dumps_no_bom: "json_ok fr v \<Longrightarrow> \<not> (json_dumps v @ t \<noteq> [] \<and> hd (json_dumps v @ t) = 65279)"
  using json_dumps_start [of fr v] json_start_not by simp

lemma skip_ws_all: "list_all is_ws ws \<Longrightarrow> skip_ws (ws @ t) = skip_ws t"
  by (induction ws) (simp_all add: skip_ws_def)

lemma json_stop_ws: "list_all is_ws ws \<Longrightarrow> json_stop ws"
  by (cases ws) (simp_all add: json_stop_def)

lemma json_loads_dumps_plain: "json_ok fr v \<Longrightarrow> json_loads fr (json_dumps v) = Inr v"
proof -
  assume ok: "json_ok fr v"
  obtain n where "scan_once fr n (json_dumps v @ []) = Some (Inr (v, []))"
    using scan_dumps [OF ok, of "[]"] by (auto simp: json_stop_def)
  then have n: "scan_once fr n (skip_ws (json_dumps v @ [])) = Some (Inr (v, []))"
    by (simp only: skip_ws_dumps [OF ok])
  show ?thesis using json_loads_scan [OF json_dumps_no_bom [OF ok, of "[]"] n] by (simp add: skip_ws_def)
qed

subsection \<open>Serialised values are ASCII\<close>

lemma takeWhile_digit_ascii: "c \<in> set (takeWhile is_digit x) \<Longrightarrow> c < 128"
  by (auto simp: is_digit_def dest: set_takeWhileD)

lemma scan_int_ascii: "scan_int s = Some (ip, t) \<Longrightarrow> \<forall>c \<in> set ip. c < 128"
  by (auto simp: scan_int_def is_digit_def split: list.splits if_splits dest: takeWhile_digit_ascii)

lemma scan_frac_ascii: "scan_frac s = (fp, t) \<Longrightarrow> \<forall>c \<in> set fp. c < 128"
  by (auto simp: scan_frac_def is_digit_def split: list.splits if_splits dest: takeWhile_digit_ascii)

lemma scan_exp_ascii: "scan_exp s = (ep, t) \<Longrightarrow> \<forall>c \<in> set ep. c < 128"
  by (auto simp: scan_exp_def is_digit_def Let_def split: list.splits if_splits dest: takeWhile_digit_ascii)

lemma match_number_ascii: "match_number s = Some (ip, fp, ep, t) \<Longrightarrow> \<forall>c \<in> set (ip @ fp @ ep). c < 128"
  unfolding match_number_def
  by (auto split: if_splits option.splits prod.splits dest!: scan_int_ascii scan_frac_ascii scan_exp_ascii)

lemma json_ok_floats_ascii: "json_ok fr v \<Longrightarrow> floats_ascii v"
proof (induction v)
  case (PFloat r)
  show ?case
  proof (cases "r = py ''nan'' \<or> r = py ''inf'' \<or> r = py ''-inf''")
    case False
    with PFloat have "float_text fr r" by simp
    then obtain ip fp ep where "match_number r = Some (ip, fp, ep, [])" by (rule float_text_split)
    with match_number_split [OF this] show ?thesis by (auto dest: match_number_ascii)
  qed auto
qed (auto simp: list_all_iff)

lemma json_dumps_scalar: "json_ok fr v \<Longrightarrow> \<forall>c \<in> set (json_dumps v). scalar c"
proof
  fix c assume "json_ok fr v" "c \<in> set (json_dumps v)"
  then have "c < 128" using json_dumps_ascii json_ok_floats_ascii by blast
  then show "scalar c" by (simp add: scalar_def)
qed

subsection \<open>Properties\<close>

text \<open>
  \<open>json.loads\<close> inverts \<open>json.dumps\<close>: for a value \<open>json.loads\<close> can return, the
  text \<open>json.dumps\<close> writes for it, with any whitespace before and after, is parsed back
  to the value. Extra data after a complete value is rejected: a serialised value
  followed by text that starts with a delimiter or whitespace and is not all whitespace
  makes \<open>json.loads\<close> raise \<open>JSONDecodeError\<close>.
\<close>

lemma json_loads_dumps:
  assumes ok: "json_ok fr v" and w1: "list_all is_ws ws1" and w2: "list_all is_ws ws2"
  shows "json_loads fr (ws1 @ json_dumps v @ ws2) = Inr v"
proof -
  have bom: "\<not> (ws1 @ json_dumps v @ ws2 \<noteq> [] \<and> hd (ws1 @ json_dumps v @ ws2) = 65279)"
    using json_dumps_no_bom [OF ok, of ws2] w1 by (cases ws1) (auto simp: is_ws_def)
  have sk: "skip_ws (ws1 @ json_dumps v @ ws2) = json_dumps v @ ws2"
    using w1 skip_ws_dumps [OF ok] by (simp add: skip_ws_all)
  obtain n where n: "scan_once fr n (json_dumps v @ ws2) = Some (Inr (v, ws2))"
    using scan_dumps [OF ok json_stop_ws [OF w2]] by blast
  have "skip_ws ws2 = []" using skip_ws_all [OF w2, of "[]"] by (simp add: skip_ws_def)
  moreover have "scan_once fr n (skip_ws (ws1 @ json_dumps v @ ws2)) = Some (Inr (v, ws2))"
    using n sk by simp
  ultimately show ?thesis using json_loads_scan [OF bom] by simp
qed

lemma json_loads_extra_data:
  assumes ok: "json_ok fr v" and t: "json_stop t" "skip_ws t \<noteq> []"
  shows "json_loads fr (json_dumps v @ t) = Inl JSONDecodeError"
proof -
  obtain n where "scan_once fr n (json_dumps v @ t) = Some (Inr (v, t))"
    using scan_dumps [OF ok t(1)] by blast
  then have n: "scan_once fr n (skip_ws (json_dumps v @ t)) = Some (Inr (v, t))"
    by (simp only: skip_ws_dumps [OF ok])
  show ?thesis using json_loads_scan [OF json_dumps_no_bom [OF ok, of t] n] t(2) by simp
qed

end
