(* ===== verification/Spec2Isabelle.thy ===== *)
theory Spec2Isabelle
  imports Notifier JsonRoundtrip
begin

text \<open>
  \<^bold>\<open>A verification development of the SCC-to-Slack notifier.\<close>

  The program is one Cloud Function, \<open>src/src/scc-slack-cloud-function/main.py\<close>. A
  Pub/Sub push delivers a Security Command Center (SCC) finding notification to
  \<open>scc_finding_slack_notifier\<close> (lines 112--135), which creates a Cloud Logging client,
  base64-decodes and UTF-8-decodes the message (line 132) and hands the text to
  \<open>message_post\<close> (lines 15--45). That function reads the Slack token with
  \<open>get_secret\<close> (lines 105--109) and parses the text with \<open>json.loads\<close>, both outside
  its \<open>try\<close>; inside it, it loads the block template \<open>finding-detail.json\<close>, fills it
  with \<open>merge_template\<close> (lines 48--93, which calls \<open>format_text\<close>, lines 96--102),
  posts it to \<open>chat.postMessage\<close> and raises on a reply other than 200. Its handler
  prints the exception; the entry point's handler logs it.

  \<^bold>\<open>Theories.\<close>
  \<^item> \<open>Prelude\<close>: Python strings as lists of code points (\<open>pystr\<close>), bytes as
    \<open>8 word\<close>, the exceptions as the datatype \<open>exc\<close> and a fallible result as
    \<open>exc + 'a\<close> with \<open>res_bind\<close>; shared facts on substrings (\<open>sublist\<close>).
  \<^item> \<open>PyStr\<close>, \<open>PyJson\<close>: the builtins the program calls, from the Python
    documentation: \<open>str.replace\<close> (one left-to-right pass), \<open>str.split\<close>, indexing,
    \<open>dict.get\<close>, subscripts and subscript assignment along a path, \<open>str()\<close>,
    \<open>repr()\<close> and \<open>json.dumps\<close> with \<open>ensure_ascii\<close>. Lemmas: what a replacement
    inserts and keeps (a placeholder \<open><NAME>\<close> is never broken by replacing another),
    read-after-write along paths, and that \<open>json.dumps\<close> writes ASCII.
  \<^item> \<open>JsonLoads\<close>, \<open>JsonRoundtrip\<close>: \<open>json.loads\<close> as CPython's C scanner
    (\<open>Modules/_json.c\<close>: \<open>scan_once_unicode\<close>, \<open>scanstring_unicode\<close>,
    \<open>_parse_array_unicode\<close>, \<open>_parse_object_unicode\<close>, \<open>_match_number_unicode\<close>)
    and \<open>JSONDecoder.decode\<close>, working on the rest of the input. The scanner's mutual
    recursion spends one unit of fuel per call; \<open>json_decode\<close> gives it twice the
    length of the input plus one, which is always enough because every successful call
    consumes input (C28). Lemmas: \<open>json.loads\<close> inverts \<open>json.dumps\<close> (C29), returns
    only well-formed values with distinct string keys (C30), and rejects extra data after
    a value (C31). \<open>float(text)\<close> is the parameter \<open>fr\<close>.
  \<^item> \<open>Base64\<close>, \<open>Utf8\<close>: \<open>base64.b64decode\<close> as CPython's non-strict
    \<open>a2b_base64\<close> loop (state: position in the quad, left-over bits as an \<open>8 word\<close>,
    pads seen) and the strict UTF-8 decoder with the well-formedness table of
    CPython; their encoders. Lemmas: the round trips (bit regrouping on words, digit
    arithmetic on code points), that junk characters are skipped, that an unpadded
    tail is an error, and that the UTF-8 decoder accepts exactly the encodings of
    strings of scalar values.
  \<^item> \<open>FormatText\<close>: \<open>format_text\<close>; what the reader of the message sees for a
    string after \<open>json.dumps\<close> and \<open>format_text\<close> (C15, C16), when it is
    idempotent (C6, C7), that without code blocks it strips one pair of enclosing
    quotes per application (C27) and that it deletes every backslash (C26).
  \<^item> \<open>MergeTemplate\<close>: \<open>merge_template\<close> in the two parts of the code, reading the
    finding (\<open>merge_fields\<close>, lines 49--57) and the six assignments (\<open>fill_blocks\<close>,
    lines 68--93), with the deep link \<open>scc_finding_url\<close> (lines 59--65). The template
    is mutated in place by the code and returned updated by the model. Lemmas: the
    severity marker (C1, C2), the deep link (C3), the errors of a finding without
    source properties, name or enough path segments (C17, C18), and that a placeholder
    in a finding's field is expanded in turn (C25).
  \<^item> \<open>Notifier\<close>: the configuration (lines 10--12) as a record, \<open>get_secret\<close>,
    \<open>message_post\<close> and the entry point. The cloud services and \<open>json.loads\<close> are
    the oracles of a record \<open>world\<close>; a run returns the trace of its effects (the
    secret requested, the POST sent, what is printed, what is logged) and the
    exception that escapes, threaded by a small trace-and-exception monad
    (\<open>io_bind\<close>, \<open>io_try\<close>). Lemmas: closed forms of the three functions; every
    outcome of the entry point (delivery C8, malformed JSON C4, HTTP error C5, merge
    error C19, secret failure C20, decoding failure C21); that it raises only when
    Cloud Logging fails (C9); at most one secret request, POST and report (C10); that
    what is posted is the pure core \<open>slack_message\<close> (C11); the secret's resource
    name (C22); and line 132 (C13, C14, C23, C24). The traces of C8 and C12 also
    show that a delivered finding writes no log entry: the code logs only in the
    \<open>except\<close> branch of line 135, while the docstring (lines 115--122) says each run
    creates a log entry and writes its output to Cloud Logging.
  \<^item> This theory: the composition of decoding, parsing, merging and posting, for any
    parser (C12) and for the model of \<open>json.loads\<close> on a payload serialised by
    \<open>json.dumps\<close> (C32).

  Every function of the model is total and computes: the recursions are structural
  (the loops over strings and bytes) or proved terminating by the function package
  (the UTF-8 decoder, which consumes one to four bytes per step, and the JSON string
  scanner, whose escapes consume two to twelve characters). The one exception is the
  mutually recursive JSON scanner, whose recursion goes through the rest of the input
  returned by an inner call; it takes fuel, and C28 shows that the fuel
  \<open>2 * length s + 1\<close> is never exhausted (every successful call consumes input, and
  an array or object spends one unit per element), while more fuel gives the same
  result. The witnesses evaluate the model by \<open>simp\<close> on an example template, finding,
  configuration, environment and event.

  \<^bold>\<open>Not modelled.\<close> The Google Cloud clients (Secret Manager, Cloud Logging), the
  HTTP library and the file system are libraries the program only calls: their results
  are oracles of \<open>world\<close>, and every lemma holds for all of them. \<open>json.loads\<close> is
  an oracle of \<open>world\<close> as well, so the lemmas of \<open>Notifier\<close> hold for any parser;
  C32 instantiates it with the model of \<open>JsonLoads\<close>. That model leaves out the
  interpreter's limits (the 4300-digit limit of \<open>int()\<close> and the recursion limit on
  nesting depth) and the conversion of a number's text to a float, which is a parameter.
  The text of an exception other than the \<open>ValueError\<close> the program builds is
  the library's and is not reproduced: the printed and logged effects carry the
  exception itself. The Terraform configuration of the repository is deployment data,
  not code. The template \<open>finding-detail.json\<close> is not in the repository: the lemmas
  hold for every template, and the witnesses use one with the placeholders the code
  replaces.
\<close>

section \<open>Properties across components\<close>

text \<open>
  An environment whose \<open>json.loads\<close> is the model of CPython's decoder (with
  \<open>float(text)\<close> giving the text back), otherwise the example environment.
\<close>

definition json_world :: world where
  "json_world = example_world\<lparr>w_loads := json_loads (\<lambda>s. s)\<rparr>"

lemma json_world_loads: "w_loads json_world = json_loads (\<lambda>s. s)"
  by (simp add: json_world_def)

text \<open>
  C12: end to end: an event whose data is the base64 encoding of the UTF-8 encoding of a
  message (a string of Unicode scalar values) is decoded, parsed, merged into the template
  and posted exactly once, when the cloud services answer and the chat API replies 200.
\<close>

theorem notifier_end_to_end:
  assumes "\<forall>c \<in> set msg. scalar c" "w_logging_client w = Inr ()" "w_secret_client w = Inr ()"
    "res_bind (w_secret w (secret_name cfg (SECRET_ID cfg) (py ''latest''))) utf8_decode = Inr token"
    "w_loads w msg = Inr payload" "w_template w = Inr template"
    "merge_template template payload = Inr blocks"
    "w_post w slack_url (json_dumps (slack_params (SLACK_CHANNEL cfg) blocks)) (slack_headers token)
       = Inr (200, reply)"
  shows "scc_finding_slack_notifier cfg w (pubsub_event (b64_encode (utf8_encode msg))) =
    ([SecretAccess (secret_name cfg (SECRET_ID cfg) (py ''latest'')),
      HttpPost slack_url (json_dumps (slack_params (SLACK_CHANNEL cfg) blocks)) (slack_headers token)],
     Inr ())"
proof -
  have "decode_event (pubsub_event (b64_encode (utf8_encode msg))) = Inr msg"
    using assms(1) by (simp add: decode_event_data b64decode_b64_encode utf8_decode_encode)
  then show ?thesis using assms(2-) by (simp add: handler_unfold)
qed

theorem notifier_end_to_end_witness:
  "\<exists>blocks. scc_finding_slack_notifier example_cfg example_world
      (pubsub_event (b64_encode (utf8_encode (py ''{}'')))) =
    ([SecretAccess (py ''projects/sec-proj/secrets/slack-token/versions/latest''),
      HttpPost slack_url (json_dumps (slack_params (Some (py ''C01'')) blocks)) (slack_headers (py ''xoxb-1''))],
     Inr ())"
proof -
  have "\<not> isl (merge_template example_template
          (example_payload (example_finding example_name (py ''OPEN_FIREWALL'') (py ''HIGH''))))"
    by (simp add: example_defs merge_eval)
  then obtain blocks where mg: "merge_template example_template
          (example_payload (example_finding example_name (py ''OPEN_FIREWALL'') (py ''HIGH''))) = Inr blocks"
    using Inr_of_not_isl by blast
  have "scc_finding_slack_notifier example_cfg example_world (pubsub_event (b64_encode (utf8_encode (py ''{}'')))) =
    ([SecretAccess (secret_name example_cfg (SECRET_ID example_cfg) (py ''latest'')),
      HttpPost slack_url (json_dumps (slack_params (SLACK_CHANNEL example_cfg) blocks)) (slack_headers (py ''xoxb-1''))],
     Inr ())"
    by (rule notifier_end_to_end [OF _ _ _ example_secret _ _ mg]) (simp_all add: example_world_def scalar_def)
  then show ?thesis by (auto simp: example_cfg_def secret_name_def fmt_opt_def)
qed

subsection \<open>Line 19 with CPython's json.loads\<close>

text \<open>
  C28: line 19 always returns on a string: with the model of \<open>json.loads\<close>, the
  scanner ends with a value or a \<open>JSONDecodeError\<close> on every input, never by running
  out of fuel, and \<open>load_payload\<close> gives that result.
\<close>

theorem payload_parse_total:
  "w_loads w = json_loads fr \<Longrightarrow> \<exists>r. json_decode fr s = Some r \<and> load_payload w (PStr s) = r"
  using json_decode_loads [of fr s] by (simp add: load_payload_def)

theorem payload_parse_total_witness:
  "\<exists>r. json_decode (\<lambda>s. s) (py ''[1'') = Some r \<and> load_payload json_world (PStr (py ''[1'')) = r"
  by (rule payload_parse_total [OF json_world_loads])

text \<open>
  C29: line 19 parses back what \<open>json.dumps\<close> writes: for a value \<open>json.loads\<close> can
  return (scalar-value strings, distinct string keys, floats whose text \<open>float\<close> gives
  back), the text \<open>json.dumps\<close> writes for it, surrounded by whitespace, is loaded as
  that value.
\<close>

theorem payload_roundtrip:
  assumes "w_loads w = json_loads fr" "json_ok fr v" "list_all is_ws ws1" "list_all is_ws ws2"
  shows "load_payload w (PStr (ws1 @ json_dumps v @ ws2)) = Inr v"
  using json_loads_dumps [OF assms(2-4)] assms(1) by (simp add: load_payload_def)

theorem payload_roundtrip_witness:
  "load_payload json_world (PStr ([32] @ json_dumps (PDict [(KStr (py ''a''), PList [PInt (-12),
     PFloat (py ''1.5''), PStr [233, 128512, 10], PBool True, PNone, PFloat (py ''nan'')])]) @ [10])) =
   Inr (PDict [(KStr (py ''a''), PList [PInt (-12), PFloat (py ''1.5''), PStr [233, 128512, 10], PBool True,
     PNone, PFloat (py ''nan'')])])"
  by (rule payload_roundtrip [OF json_world_loads])
     (simp_all add: float_text_def match_number_def scan_int_def scan_frac_def scan_exp_def is_digit_def
       scalar_def is_ws_def)

text \<open>
  C30: every payload line 19 loads from a string is well formed: the keys of each dict
  are distinct strings, so the \<open>dict.get\<close> and subscript lookups of
  \<open>merge_template\<close> see one value per key.
\<close>

theorem payload_loaded:
  "w_loads w = json_loads fr \<Longrightarrow> load_payload w (PStr s) = Inr v \<Longrightarrow> loaded v"
  by (simp add: load_payload_def json_loads_loaded)

theorem payload_loaded_witness:
  "load_payload json_world (PStr (json_dumps (PDict [(KStr (py ''a''), PInt 1)]))) = Inr (PDict [(KStr (py ''a''), PInt 1)]) \<and>
   loaded (PDict [(KStr (py ''a''), PInt 1)])"
proof -
  have l: "load_payload json_world (PStr (json_dumps (PDict [(KStr (py ''a''), PInt 1)]))) =
      Inr (PDict [(KStr (py ''a''), PInt 1)])"
    using json_loads_dumps_plain [of "\<lambda>s. s" "PDict [(KStr (py ''a''), PInt 1)]"]
    by (simp add: load_payload_def json_world_loads scalar_def)
  then show ?thesis using payload_loaded [OF json_world_loads l] by blast
qed

text \<open>
  C31: line 19 rejects extra data: a serialised value followed by text that starts with a
  delimiter or whitespace and is not all whitespace raises \<open>JSONDecodeError\<close>.
\<close>

theorem payload_extra_data:
  assumes "w_loads w = json_loads fr" "json_ok fr v" "json_stop t" "skip_ws t \<noteq> []"
  shows "load_payload w (PStr (json_dumps v @ t)) = Inl JSONDecodeError"
  using json_loads_extra_data [OF assms(2-4)] assms(1) by (simp add: load_payload_def)

theorem payload_extra_data_witness:
  "load_payload json_world (PStr (json_dumps (PList [PInt 1]) @ py ''], 2'')) = Inl JSONDecodeError"
  by (rule payload_extra_data [OF json_world_loads]) (simp_all add: json_stop_def skip_ws_def is_ws_def)

subsection \<open>Delivery of a serialised payload\<close>

text \<open>
  C32: end to end with the real parser: when the environment's \<open>json.loads\<close> is the
  model of CPython's decoder, an event whose data is the base64 encoding of the UTF-8
  encoding of \<open>json.dumps\<close> of a payload is parsed back to that payload, merged into the
  template and posted exactly once, when the cloud services answer and the chat API
  replies 200.
\<close>

theorem notifier_delivers_json:
  assumes "json_ok fr p" "w_loads w = json_loads fr"
    "w_logging_client w = Inr ()" "w_secret_client w = Inr ()"
    "res_bind (w_secret w (secret_name cfg (SECRET_ID cfg) (py ''latest''))) utf8_decode = Inr token"
    "w_template w = Inr template" "merge_template template p = Inr blocks"
    "w_post w slack_url (json_dumps (slack_params (SLACK_CHANNEL cfg) blocks)) (slack_headers token)
       = Inr (200, reply)"
  shows "scc_finding_slack_notifier cfg w (pubsub_event (b64_encode (utf8_encode (json_dumps p)))) =
    ([SecretAccess (secret_name cfg (SECRET_ID cfg) (py ''latest'')),
      HttpPost slack_url (json_dumps (slack_params (SLACK_CHANNEL cfg) blocks)) (slack_headers token)],
     Inr ())"
proof -
  have "decode_event (pubsub_event (b64_encode (utf8_encode (json_dumps p)))) = Inr (json_dumps p)"
    using json_dumps_scalar [OF assms(1)]
    by (simp add: decode_event_data b64decode_b64_encode utf8_decode_encode)
  moreover have "w_loads w (json_dumps p) = Inr p"
    using assms(2) json_loads_dumps_plain [OF assms(1)] by simp
  ultimately show ?thesis using assms(3-) by (simp add: handler_unfold)
qed

theorem notifier_delivers_json_witness:
  "\<exists>blocks. scc_finding_slack_notifier example_cfg (json_world)
      (pubsub_event (b64_encode (utf8_encode (json_dumps
         (example_payload (example_finding example_name (py ''OPEN_FIREWALL'') (py ''HIGH''))))))) =
    ([SecretAccess (py ''projects/sec-proj/secrets/slack-token/versions/latest''),
      HttpPost slack_url (json_dumps (slack_params (Some (py ''C01'')) blocks)) (slack_headers (py ''xoxb-1''))],
     Inr ())"
proof -
  let ?p = "example_payload (example_finding example_name (py ''OPEN_FIREWALL'') (py ''HIGH''))"
  let ?w = "json_world"
  have "\<not> isl (merge_template example_template ?p)"
    by (simp add: example_defs merge_eval)
  then obtain blocks where mg: "merge_template example_template ?p = Inr blocks"
    using Inr_of_not_isl by blast
  have ok: "json_ok (\<lambda>s. s) ?p" by (simp add: example_defs scalar_def)
  have sec: "res_bind (w_secret ?w (secret_name example_cfg (SECRET_ID example_cfg) (py ''latest''))) utf8_decode
      = Inr (py ''xoxb-1'')"
    by (simp add: json_world_def example_world_def)
  have "scc_finding_slack_notifier example_cfg ?w (pubsub_event (b64_encode (utf8_encode (json_dumps ?p)))) =
    ([SecretAccess (secret_name example_cfg (SECRET_ID example_cfg) (py ''latest'')),
      HttpPost slack_url (json_dumps (slack_params (SLACK_CHANNEL example_cfg) blocks)) (slack_headers (py ''xoxb-1''))],
     Inr ())"
    by (rule notifier_delivers_json [OF ok _ _ _ sec _ mg]) (simp_all add: json_world_def example_world_def)
  then show ?thesis by (auto simp: example_cfg_def secret_name_def fmt_opt_def)
qed

end
